theory Spec2Isabelle
  imports Main "HOL-Library.AList" "HOL-Library.Word" "HOL-Library.Multiset" "HOL-Library.Sublist"
begin


section \<open>The file system\<close>

text \<open>
  A file system is a tree. A directory keeps its entries in the order in which
  \<^verbatim>\<open>readdir\<close> enumerates them. The flag of a file or directory says whether its
  bytes, or its listing, can be read; \<open>Special\<close> stands for every entry that is
  neither a regular file nor a directory (FIFO, socket, device, link), for which both
  \<^verbatim>\<open>isFile()\<close> and \<^verbatim>\<open>isDirectory()\<close> are false.
\<close>

datatype node =
    File bool string
  | Dir bool "(string \<times> node) list"
  | Special

text \<open>
  Paths are strings, as in the source. A path is resolved from the root, component by
  component; empty components and \<open>.\<close> are dropped and \<open>..\<close> steps back.
\<close>

fun splitOn :: "char \<Rightarrow> string \<Rightarrow> string list" where
  "splitOn sep [] = [[]]"
| "splitOn sep (c # cs) =
     (if c = sep then [] # splitOn sep cs
      else (case splitOn sep cs of [] \<Rightarrow> [[c]] | w # ws \<Rightarrow> (c # w) # ws))"

definition parts :: "string \<Rightarrow> string list" where
  "parts p = filter (\<lambda>c. c \<noteq> [] \<and> c \<noteq> ''.'') (splitOn CHR ''/'' p)"

definition resolveDots :: "string list \<Rightarrow> string list" where
  "resolveDots cs = fold (\<lambda>c acc. if c = ''..'' then butlast acc else acc @ [c]) cs []"

definition components :: "string \<Rightarrow> string list" where
  "components p = resolveDots (parts p)"

primrec lookup :: "node \<Rightarrow> string list \<Rightarrow> node option" where
  "lookup n [] = Some n"
| "lookup n (c # cs) =
     (case n of
        Dir r es \<Rightarrow> (case map_of es c of None \<Rightarrow> None | Some child \<Rightarrow> lookup child cs)
      | _ \<Rightarrow> None)"

definition nodeAt :: "node \<Rightarrow> string \<Rightarrow> node option" where
  "nodeAt fs p = lookup fs (components p)"

section \<open>Directory fingerprints (src/lib/hash.ts)\<close>

text \<open>
  \<^verbatim>\<open>Bun.hash\<close> (a 64-bit hash of a byte sequence) and
  \<^verbatim>\<open>String.prototype.localeCompare\<close> belong to the platform; the model takes them
  as parameters \<open>H\<close> and \<open>lc\<close>.
\<close>

type_synonym hasher = "string \<Rightarrow> 64 word"
type_synonym comparer = "string \<Rightarrow> string \<Rightarrow> int"

definition hexDigit :: "nat \<Rightarrow> char" where
  "hexDigit d = ''0123456789abcdef'' ! d"

text \<open>\<^verbatim>\<open>toString(16)\<close> of a non-negative integer: lower-case digits, no leading zero.\<close>

fun toString16 :: "nat \<Rightarrow> string" where
  "toString16 n =
     (if n < 16 then [hexDigit n] else toString16 (n div 16) @ [hexDigit (n mod 16)])"

definition hashHex :: "hasher \<Rightarrow> string \<Rightarrow> string" where
  "hashHex H bytes = toString16 (unat (H bytes))"

text \<open>
  A JavaScript \<^verbatim>\<open>Map\<close> keeps its keys in insertion order and \<^verbatim>\<open>set\<close> on
  a key that is present replaces the value in place: an association list with
  \<open>AList.update\<close>.
\<close>

type_synonym files = "(string \<times> string) list"

definition relativePath :: "string \<Rightarrow> string \<Rightarrow> string" where
  "relativePath basePath name = (if basePath \<noteq> [] then basePath @ ''/'' @ name else name)"

definition setAll :: "files \<Rightarrow> files \<Rightarrow> files" where
  "setAll subFiles files = fold (\<lambda>(p, h). AList.update p h) subFiles files"

text \<open>
  \<open>getDirectoryFiles\<close> on the node that \<^verbatim>\<open>dirPath\<close> names. The whole body is
  inside one \<^verbatim>\<open>try\<close>: when \<^verbatim>\<open>readdir\<close> raises (not a directory, listing
  denied) the map is returned empty, and when reading a file raises inside the loop
  (\<open>scanEntries\<close>) the loop ends there and the map is returned as far as it was built.
\<close>

fun getDirectoryFiles :: "hasher \<Rightarrow> node \<Rightarrow> string \<Rightarrow> files"
and scanEntries :: "hasher \<Rightarrow> (string \<times> node) list \<Rightarrow> string \<Rightarrow> files \<Rightarrow> files"
where
  "getDirectoryFiles H (Dir r es) basePath = (if r then scanEntries H es basePath [] else [])"
| "getDirectoryFiles H (File r content) basePath = []"
| "getDirectoryFiles H Special basePath = []"
| "scanEntries H [] basePath files = files"
| "scanEntries H ((name, Dir r sub) # es) basePath files =
     scanEntries H es basePath
       (setAll (getDirectoryFiles H (Dir r sub) (relativePath basePath name)) files)"
| "scanEntries H ((name, File r content) # es) basePath files =
     (if r then scanEntries H es basePath
                 (AList.update (relativePath basePath name) (hashHex H content) files)
      else files)"
| "scanEntries H ((name, Special) # es) basePath files = scanEntries H es basePath files"

text \<open>A path that names nothing makes \<^verbatim>\<open>readdir\<close> raise as well.\<close>

definition filesAt :: "hasher \<Rightarrow> node \<Rightarrow> string \<Rightarrow> files" where
  "filesAt H fs dirPath =
     (case nodeAt fs dirPath of None \<Rightarrow> [] | Some n \<Rightarrow> getDirectoryFiles H n [])"

text \<open>
  \<^verbatim>\<open>Array.prototype.sort\<close> is stable; with a comparator that is a total order every
  stable sort gives the same list. The model inserts from the right, each element
  before the first one that is not smaller.
\<close>

fun insertBy :: "('a \<Rightarrow> 'a \<Rightarrow> int) \<Rightarrow> 'a \<Rightarrow> 'a list \<Rightarrow> 'a list" where
  "insertBy cmp x [] = [x]"
| "insertBy cmp x (y # ys) = (if cmp x y \<le> 0 then x # y # ys else y # insertBy cmp x ys)"

definition sortBy :: "('a \<Rightarrow> 'a \<Rightarrow> int) \<Rightarrow> 'a list \<Rightarrow> 'a list" where
  "sortBy cmp xs = foldr (insertBy cmp) xs []"

fun joinWith :: "string \<Rightarrow> string list \<Rightarrow> string" where
  "joinWith sep [] = []"
| "joinWith sep [x] = x"
| "joinWith sep (x # y # ys) = x @ sep @ joinWith sep (y # ys)"

definition combine :: "comparer \<Rightarrow> files \<Rightarrow> string" where
  "combine lc files =
     joinWith ''|'' (map (\<lambda>(p, h). p @ '':'' @ h) (sortBy (\<lambda>a b. lc (fst a) (fst b)) files))"

definition hashFiles :: "hasher \<Rightarrow> comparer \<Rightarrow> files \<Rightarrow> string" where
  "hashFiles H lc files = (if length files = 0 then ''empty'' else hashHex H (combine lc files))"

definition hashDirectory :: "hasher \<Rightarrow> comparer \<Rightarrow> node \<Rightarrow> string \<Rightarrow> string" where
  "hashDirectory H lc fs dirPath = hashFiles H lc (filesAt H fs dirPath)"

definition directoryExists :: "node \<Rightarrow> string \<Rightarrow> bool" where
  "directoryExists fs dirPath = (case nodeAt fs dirPath of Some (Dir r es) \<Rightarrow> True | _ \<Rightarrow> False)"

datatype sync_status = Synced | NotSynced | TargetMissing

definition compareDirectories :: "hasher \<Rightarrow> comparer \<Rightarrow> node \<Rightarrow> string \<Rightarrow> string \<Rightarrow> sync_status" where
  "compareDirectories H lc fs source target =
     (if \<not> directoryExists fs target then TargetMissing
      else if hashDirectory H lc fs source = hashDirectory H lc fs target then Synced
      else NotSynced)"


text \<open>
  Stand-ins for the two platform functions, used where a theorem is applied to a
  concrete file system: a hash that only looks at the length, and the comparison of
  strings byte by byte.
\<close>

definition lengthHash :: hasher where
  "lengthHash bytes = of_nat (length bytes)"

fun byteCompare :: comparer where
  "byteCompare [] [] = 0"
| "byteCompare [] (y # ys) = - 1"
| "byteCompare (x # xs) [] = 1"
| "byteCompare (x # xs) (y # ys) =
     (if (of_char x :: nat) < of_char y then - 1
      else if (of_char y :: nat) < of_char x then 1
      else byteCompare xs ys)"

definition demoTree :: node where
  "demoTree =
     Dir True
       [(''store'', Dir True [(''skill'', Dir True [(''SKILL.md'', File True ''abc'')])]),
        (''notes.txt'', File True ''hello''),
        (''locked'', Dir False [(''x'', File True ''y'')]),
        (''pipe'', Special),
        (''blank'', Dir True [])]"

section \<open>Git URLs (src/lib/paths.ts)\<close>

text \<open>
  The matchers are regular expressions. The fragment of the regular expression
  language they use is embedded as a list of tokens with the backtracking semantics
  of \<^verbatim>\<open>String.prototype.match\<close>: a literal, an alternative of literals
  \<^verbatim>\<open>(?:a|b)\<close>, an optional literal \<^verbatim>\<open>(?:a)?\<close>, a captured greedy
  \<^verbatim>\<open>(c+)\<close> or lazy \<^verbatim>\<open>(c+?)\<close> repetition of a character class, and the
  end anchor. A URL is read as a string of 8-bit characters.
\<close>

datatype cls =
    AnyChar
  | NoneOf "char list"
  | NoneOfOrSpace "char list"

definition isSpace :: "char \<Rightarrow> bool" where
  "isSpace c = (of_char c \<in> {9, 10, 11, 12, 13, 32, 160 :: nat})"

definition isLineEnd :: "char \<Rightarrow> bool" where
  "isLineEnd c = (of_char c \<in> {10, 13 :: nat})"

fun inCls :: "cls \<Rightarrow> char \<Rightarrow> bool" where
  "inCls AnyChar c = (\<not> isLineEnd c)"
| "inCls (NoneOf cs) c = (c \<notin> set cs)"
| "inCls (NoneOfOrSpace cs) c = (c \<notin> set cs \<and> \<not> isSpace c)"

datatype tok =
    Lit string
  | Alt "string list"
  | Opt string
  | Greedy cls
  | Lazy cls
  | Eos

definition span :: "cls \<Rightarrow> string \<Rightarrow> nat" where
  "span c s = length (takeWhile (inCls c) s)"

text \<open>
  \<open>run ts s\<close> matches the tokens at the start of \<open>s\<close> and returns the captured
  groups of the first successful way of matching, alternatives tried in the order of
  the backtracking matcher: the literals of an alternative from left to right, an
  optional literal first present and then absent, a greedy repetition from the longest
  to the shortest, a lazy one from the shortest to the longest.
\<close>

function run :: "tok list \<Rightarrow> string \<Rightarrow> string list option"
and tryLits :: "tok list \<Rightarrow> string \<Rightarrow> string list \<Rightarrow> string list option"
and tryLens :: "tok list \<Rightarrow> string \<Rightarrow> nat list \<Rightarrow> string list option"
where
  "run [] s = Some []"
| "run (Lit l # ts) s = tryLits ts s [l]"
| "run (Alt ls # ts) s = tryLits ts s ls"
| "run (Opt l # ts) s = tryLits ts s [l, []]"
| "run (Greedy c # ts) s = tryLens ts s (rev [1..<Suc (span c s)])"
| "run (Lazy c # ts) s = tryLens ts s [1..<Suc (span c s)]"
| "run (Eos # ts) s = (if s = [] then run ts s else None)"
| "tryLits ts s [] = None"
| "tryLits ts s (l # ls) =
     (if prefix l s
      then (case run ts (drop (length l) s) of
              Some caps \<Rightarrow> Some caps
            | None \<Rightarrow> tryLits ts s ls)
      else tryLits ts s ls)"
| "tryLens ts s [] = None"
| "tryLens ts s (k # ks) =
     (case run ts (drop k s) of
        Some caps \<Rightarrow> Some (take k s # caps)
      | None \<Rightarrow> tryLens ts s ks)"
  by pat_completeness auto
termination
  by (relation "measures
        [\<lambda>x. case x of Inl (ts, s) \<Rightarrow> length ts
              | Inr (Inl (ts, s, ls)) \<Rightarrow> length ts
              | Inr (Inr (ts, s, ks)) \<Rightarrow> length ts,
         \<lambda>x. case x of Inl (ts, s) \<Rightarrow> 0
              | Inr (Inl (ts, s, ls)) \<Rightarrow> Suc (length ls)
              | Inr (Inr (ts, s, ks)) \<Rightarrow> Suc (length ks)]") auto

text \<open>A match may start at any position; the leftmost one wins.\<close>

fun match :: "tok list \<Rightarrow> string \<Rightarrow> string list option" where
  "match ts [] = run ts []"
| "match ts (c # cs) = (case run ts (c # cs) of Some caps \<Rightarrow> Some caps | None \<Rightarrow> match ts cs)"

definition stripSuffix :: "string \<Rightarrow> string \<Rightarrow> string" where
  "stripSuffix suf s = (if suffix suf s then take (length s - length suf) s else s)"

definition endsWith :: "string \<Rightarrow> string \<Rightarrow> bool" where
  "endsWith s suf = suffix suf s"

record ParsedGitUrl =
  host :: string
  owner :: string
  repo :: string
  branch :: "string option"
  subdir :: "string option"
  cloneUrl :: string

definition notSlash :: cls where
  "notSlash = NoneOf ''/''"

definition repoChars :: cls where
  "repoChars = NoneOfOrSpace ''/.''"

definition parseGitHubUrl :: "string \<Rightarrow> ParsedGitUrl option" where
  "parseGitHubUrl url =
     (case match [Lit ''github.com/'', Greedy notSlash, Lit ''/'', Greedy notSlash, Lit ''/'',
                  Alt [''tree'', ''blob''], Lit ''/'', Greedy notSlash, Lit ''/'', Greedy AnyChar] url of
        Some [own, rep, br, sub] \<Rightarrow>
          Some \<lparr>host = ''github.com'', owner = own, repo = stripSuffix ''.git'' rep,
                branch = Some br, subdir = Some (stripSuffix ''/'' sub),
                cloneUrl = ''https://github.com/'' @ own @ ''/'' @ stripSuffix ''.git'' rep @ ''.git''\<rparr>
      | _ \<Rightarrow>
     (case match [Lit ''github.com/'', Greedy notSlash, Lit ''/'', Greedy repoChars] url of
        Some [own, rep] \<Rightarrow>
          Some \<lparr>host = ''github.com'', owner = own, repo = stripSuffix ''.git'' rep,
                branch = None, subdir = None,
                cloneUrl = ''https://github.com/'' @ own @ ''/'' @ stripSuffix ''.git'' rep @ ''.git''\<rparr>
      | _ \<Rightarrow>
     (case match [Lit ''git@github.com:'', Greedy notSlash, Lit ''/'', Lazy AnyChar, Opt ''.git'', Eos] url of
        Some [own, rep] \<Rightarrow>
          Some \<lparr>host = ''github.com'', owner = own, repo = stripSuffix ''.git'' rep,
                branch = None, subdir = None,
                cloneUrl = ''git@github.com:'' @ own @ ''/'' @ stripSuffix ''.git'' rep @ ''.git''\<rparr>
      | _ \<Rightarrow> None)))"

definition parseGitLabUrl :: "string \<Rightarrow> ParsedGitUrl option" where
  "parseGitLabUrl url =
     (case match [Lit ''gitlab.com/'', Greedy notSlash, Lit ''/'', Greedy notSlash, Lit ''/-/tree/'',
                  Greedy notSlash, Lit ''/'', Greedy AnyChar] url of
        Some [own, rep, br, sub] \<Rightarrow>
          Some \<lparr>host = ''gitlab.com'', owner = own, repo = stripSuffix ''.git'' rep,
                branch = Some br, subdir = Some (stripSuffix ''/'' sub),
                cloneUrl = ''https://gitlab.com/'' @ own @ ''/'' @ stripSuffix ''.git'' rep @ ''.git''\<rparr>
      | _ \<Rightarrow>
     (case match [Lit ''gitlab.com/'', Greedy notSlash, Lit ''/'', Greedy repoChars] url of
        Some [own, rep] \<Rightarrow>
          Some \<lparr>host = ''gitlab.com'', owner = own, repo = stripSuffix ''.git'' rep,
                branch = None, subdir = None,
                cloneUrl = ''https://gitlab.com/'' @ own @ ''/'' @ stripSuffix ''.git'' rep @ ''.git''\<rparr>
      | _ \<Rightarrow>
     (case match [Lit ''git@gitlab.com:'', Greedy notSlash, Lit ''/'', Lazy AnyChar, Opt ''.git'', Eos] url of
        Some [own, rep] \<Rightarrow>
          Some \<lparr>host = ''gitlab.com'', owner = own, repo = stripSuffix ''.git'' rep,
                branch = None, subdir = None,
                cloneUrl = ''git@gitlab.com:'' @ own @ ''/'' @ stripSuffix ''.git'' rep @ ''.git''\<rparr>
      | _ \<Rightarrow> None)))"

definition parseBitbucketUrl :: "string \<Rightarrow> ParsedGitUrl option" where
  "parseBitbucketUrl url =
     (case match [Lit ''bitbucket.org/'', Greedy notSlash, Lit ''/'', Greedy notSlash, Lit ''/src/'',
                  Greedy notSlash, Lit ''/'', Greedy AnyChar] url of
        Some [own, rep, br, sub] \<Rightarrow>
          Some \<lparr>host = ''bitbucket.org'', owner = own, repo = stripSuffix ''.git'' rep,
                branch = Some br, subdir = Some (stripSuffix ''/'' sub),
                cloneUrl = ''https://bitbucket.org/'' @ own @ ''/'' @ stripSuffix ''.git'' rep @ ''.git''\<rparr>
      | _ \<Rightarrow>
     (case match [Lit ''bitbucket.org/'', Greedy notSlash, Lit ''/'', Greedy repoChars] url of
        Some [own, rep] \<Rightarrow>
          Some \<lparr>host = ''bitbucket.org'', owner = own, repo = stripSuffix ''.git'' rep,
                branch = None, subdir = None,
                cloneUrl = ''https://bitbucket.org/'' @ own @ ''/'' @ stripSuffix ''.git'' rep @ ''.git''\<rparr>
      | _ \<Rightarrow>
     (case match [Lit ''git@bitbucket.org:'', Greedy notSlash, Lit ''/'', Lazy AnyChar, Opt ''.git'', Eos] url of
        Some [own, rep] \<Rightarrow>
          Some \<lparr>host = ''bitbucket.org'', owner = own, repo = stripSuffix ''.git'' rep,
                branch = None, subdir = None,
                cloneUrl = ''git@bitbucket.org:'' @ own @ ''/'' @ stripSuffix ''.git'' rep @ ''.git''\<rparr>
      | _ \<Rightarrow> None)))"

definition parseGenericGitUrl :: "string \<Rightarrow> ParsedGitUrl option" where
  "parseGenericGitUrl url =
     (case match [Lit ''git@'', Greedy (NoneOf '':''), Lit '':'', Greedy notSlash, Lit ''/'',
                  Lazy AnyChar, Opt ''.git'', Eos] url of
        Some [hst, own, rep] \<Rightarrow>
          Some \<lparr>host = hst, owner = own, repo = stripSuffix ''.git'' rep,
                branch = None, subdir = None,
                cloneUrl = (if endsWith url ''.git'' then url else url @ ''.git'')\<rparr>
      | _ \<Rightarrow>
     (case match [Lit ''http'', Opt ''s'', Lit ''://'', Greedy notSlash, Lit ''/'', Greedy notSlash,
                  Lit ''/'', Greedy repoChars] url of
        Some [hst, own, rep] \<Rightarrow>
          Some \<lparr>host = hst, owner = own, repo = stripSuffix ''.git'' rep,
                branch = None, subdir = None,
                cloneUrl = (if endsWith url ''.git'' then url else url @ ''.git'')\<rparr>
      | _ \<Rightarrow> None))"

text \<open>\<^verbatim>\<open>a || b\<close> on results that are an object or \<^verbatim>\<open>null\<close>: the first that is not null.\<close>

definition orElse :: "'a option \<Rightarrow> 'a option \<Rightarrow> 'a option" where
  "orElse a b = (case a of Some x \<Rightarrow> Some x | None \<Rightarrow> b)"

definition parseGitUrl :: "string \<Rightarrow> ParsedGitUrl option" where
  "parseGitUrl url =
     orElse (parseGitHubUrl url)
       (orElse (parseGitLabUrl url) (orElse (parseBitbucketUrl url) (parseGenericGitUrl url)))"

section \<open>Enumeration order\<close>

text \<open>
  What a file system guarantees of the names in a directory: none is empty, none
  contains the separator, no two are equal.
\<close>

definition validName :: "string \<Rightarrow> bool" where
  "validName name = (name \<noteq> [] \<and> CHR ''/'' \<notin> set name)"

fun wellNamed :: "node \<Rightarrow> bool" where
  "wellNamed (Dir r es) =
     (distinct (map fst es) \<and> (\<forall>e \<in> set es. validName (fst e) \<and> wellNamed (snd e)))"
| "wellNamed (File r content) = True"
| "wellNamed Special = True"

text \<open>Every regular file that the walk reaches can be read.\<close>

fun filesReadable :: "node \<Rightarrow> bool" where
  "filesReadable (File r content) = r"
| "filesReadable (Dir r es) = (r \<longrightarrow> (\<forall>e \<in> set es. filesReadable (snd e)))"
| "filesReadable Special = True"

text \<open>
  \<open>reordered t t'\<close>: \<open>t'\<close> is the tree \<open>t\<close> with the entries of every directory
  enumerated in some other order.
\<close>

inductive reordered :: "node \<Rightarrow> node \<Rightarrow> bool" where
  reordered_File: "reordered (File r content) (File r content)"
| reordered_Special: "reordered Special Special"
| reordered_Dir:
    "list_all2 (\<lambda>a b. fst a = fst b \<and> reordered (snd a) (snd b)) es es' \<Longrightarrow>
     mset es' = mset es'' \<Longrightarrow> reordered (Dir r es) (Dir r es'')"

text \<open>What one directory entry adds to the map of its directory.\<close>

definition entryFiles :: "hasher \<Rightarrow> string \<Rightarrow> string \<times> node \<Rightarrow> (string \<rightharpoonup> string)" where
  "entryFiles H basePath e =
     (case snd e of
        File r content \<Rightarrow> [relativePath basePath (fst e) \<mapsto> hashHex H content]
      | Dir r sub \<Rightarrow> map_of (getDirectoryFiles H (snd e) (relativePath basePath (fst e)))
      | Special \<Rightarrow> Map.empty)"

text \<open>The name of the entry of the directory at \<open>basePath\<close> that a relative path goes through.\<close>

definition firstName :: "string \<Rightarrow> string \<Rightarrow> string" where
  "firstName basePath p =
     takeWhile (\<lambda>c. c \<noteq> CHR ''/'') (drop (if basePath = [] then 0 else Suc (length basePath)) p)"

text \<open>The comparator is a total order on a set of paths.\<close>

definition totalOrderOn :: "string set \<Rightarrow> comparer \<Rightarrow> bool" where
  "totalOrderOn K lc =
     ((\<forall>a \<in> K. \<forall>b \<in> K. (lc a b \<le> 0 \<or> lc b a \<le> 0) \<and> (lc a b \<le> 0 \<and> lc b a \<le> 0 \<longrightarrow> a = b))
      \<and> (\<forall>a \<in> K. \<forall>b \<in> K. \<forall>c \<in> K. lc a b \<le> 0 \<and> lc b c \<le> 0 \<longrightarrow> lc a c \<le> 0))"

text \<open>Trees on which the theorems on the enumeration order are applied.\<close>

definition orderTree :: node where
  "orderTree =
     Dir True
       [(''a.md'', File True ''x''),
        (''d'', Dir True [(''c'', File True ''1''), (''b'', File True ''22'')])]"

definition orderTree' :: node where
  "orderTree' =
     Dir True
       [(''d'', Dir True [(''b'', File True ''22''), (''c'', File True ''1'')]),
        (''a.md'', File True ''x'')]"

definition lockedTree :: node where
  "lockedTree = Dir True [(''a'', File True ''x''), (''b'', File False ''y'')]"

definition lockedTree' :: node where
  "lockedTree' = Dir True [(''b'', File False ''y''), (''a'', File True ''x'')]"

section \<open>File system operations\<close>

text \<open>
  The operations of \<^verbatim>\<open>fs/promises\<close> and of Bun that the program calls, on the tree.
  A result \<open>None\<close> stands for the operation raising; the tree is then as it was
  (but for \<open>cp\<close>, which may have copied a part). Permissions other than the read
  flags are not modelled.
\<close>

text \<open>\<open>putAt p v n\<close> sets (\<open>Some\<close>) or removes (\<open>None\<close>) the entry at \<open>p\<close>; the directory that holds it must exist.\<close>

primrec putAt :: "string list \<Rightarrow> node option \<Rightarrow> node \<Rightarrow> node option" where
  "putAt [] v n = None"
| "putAt (c # cs) v n =
     (case n of
        Dir r es \<Rightarrow>
          (if cs = []
           then Some (Dir r (case v of None \<Rightarrow> AList.delete c es | Some x \<Rightarrow> AList.update c x es))
           else (case map_of es c of
                   None \<Rightarrow> None
                 | Some child \<Rightarrow>
                     (case putAt cs v child of
                        None \<Rightarrow> None
                      | Some child' \<Rightarrow> Some (Dir r (AList.update c child' es)))))
      | _ \<Rightarrow> None)"

text \<open>\<^verbatim>\<open>mkdir(p, {recursive: true})\<close>: raises when something on the way is not a directory.\<close>

primrec mkdirp :: "string list \<Rightarrow> node \<Rightarrow> node option" where
  "mkdirp [] n = (case n of Dir r es \<Rightarrow> Some n | _ \<Rightarrow> None)"
| "mkdirp (c # cs) n =
     (case n of
        Dir r es \<Rightarrow>
          (case mkdirp cs (case map_of es c of None \<Rightarrow> Dir True [] | Some child \<Rightarrow> child) of
             None \<Rightarrow> None
           | Some child' \<Rightarrow> Some (Dir r (AList.update c child' es)))
      | _ \<Rightarrow> None)"

definition mkdir :: "node \<Rightarrow> string \<Rightarrow> node option" where
  "mkdir fs p = mkdirp (components p) fs"

text \<open>\<^verbatim>\<open>readdir(p)\<close>: the names, in enumeration order.\<close>

definition readdir :: "node \<Rightarrow> string \<Rightarrow> string list option" where
  "readdir fs p = (case nodeAt fs p of Some (Dir True es) \<Rightarrow> Some (map fst es) | _ \<Rightarrow> None)"

text \<open>\<^verbatim>\<open>rm(p, {recursive: true, force: true})\<close>: a path that names nothing is not an error.\<close>

definition rmrf :: "node \<Rightarrow> string \<Rightarrow> node" where
  "rmrf fs p = (case putAt (components p) None fs of None \<Rightarrow> fs | Some fs' \<Rightarrow> fs')"

text \<open>\<^verbatim>\<open>rm(p, {recursive: false})\<close>: raises on a directory and on a path that names nothing.\<close>

definition rmFile :: "node \<Rightarrow> string \<Rightarrow> node option" where
  "rmFile fs p =
     (case nodeAt fs p of
        Some (File r content) \<Rightarrow> putAt (components p) None fs
      | Some Special \<Rightarrow> putAt (components p) None fs
      | _ \<Rightarrow> None)"

text \<open>
  \<^verbatim>\<open>rename(old, new)\<close>: the source must exist, the new path must not lie inside
  it, and what the new path names may only be replaced by a node of its kind (a
  directory only when it is empty).
\<close>

definition mayReplace :: "node \<Rightarrow> node option \<Rightarrow> bool" where
  "mayReplace src dst =
     (case dst of
        None \<Rightarrow> True
      | Some (Dir r es) \<Rightarrow> (case src of Dir r' es' \<Rightarrow> es = [] | _ \<Rightarrow> False)
      | Some _ \<Rightarrow> (case src of Dir r' es' \<Rightarrow> False | _ \<Rightarrow> True))"

definition rename :: "node \<Rightarrow> string \<Rightarrow> string \<Rightarrow> node option" where
  "rename fs old new =
     (case nodeAt fs old of
        None \<Rightarrow> None
      | Some src \<Rightarrow>
          if components old = components new then Some fs
          else if prefix (components old) (components new) then None
          else if \<not> mayReplace src (nodeAt fs new) then None
          else (case putAt (components old) None fs of
                  None \<Rightarrow> None
                | Some fs1 \<Rightarrow> putAt (components new) (Some src) fs1))"

text \<open>\<^verbatim>\<open>Bun.write(p, text)\<close>: raises on a directory and where the directory of \<open>p\<close> is missing.\<close>

definition writeFile :: "node \<Rightarrow> string \<Rightarrow> string \<Rightarrow> node option" where
  "writeFile fs p content =
     (case nodeAt fs p of
        Some (Dir r es) \<Rightarrow> None
      | Some (File r old) \<Rightarrow> putAt (components p) (Some (File r content)) fs
      | _ \<Rightarrow> putAt (components p) (Some (File True content)) fs)"

text \<open>\<^verbatim>\<open>Bun.file(p).exists()\<close>: true for a file, false for a directory or a path that names nothing.\<close>

definition fileExists :: "node \<Rightarrow> string \<Rightarrow> bool" where
  "fileExists fs p = (case nodeAt fs p of Some (File r content) \<Rightarrow> True | Some Special \<Rightarrow> True | _ \<Rightarrow> False)"

text \<open>
  \<^verbatim>\<open>cp(src, dst, {recursive: true})\<close> copies a tree into what the destination
  names, entry by entry in enumeration order, replacing files and merging
  directories; the directories above the destination are created. \<open>copyNode src dst\<close> returns the error, if one was raised, and what the
  destination names afterwards: what was copied before the error stays.
\<close>

fun copyNode :: "node \<Rightarrow> node option \<Rightarrow> string option \<times> node option"
and copyEntries :: "(string \<times> node) list \<Rightarrow> bool \<Rightarrow> (string \<times> node) list
                      \<Rightarrow> string option \<times> node option"
where
  "copyNode (File r content) dst =
     (if \<not> r then (Some ''EACCES'', dst)
      else (case dst of
              Some (Dir r' es') \<Rightarrow> (Some ''ERR_FS_CP_NON_DIR_TO_DIR'', dst)
            | _ \<Rightarrow> (None, Some (File True content))))"
| "copyNode Special dst = (Some ''ERR_FS_CP_UNKNOWN'', dst)"
| "copyNode (Dir r es) dst =
     (if \<not> r then (Some ''EACCES'', dst)
      else (case dst of
              None \<Rightarrow> copyEntries es True []
            | Some (Dir r' es') \<Rightarrow> copyEntries es r' es'
            | Some _ \<Rightarrow> (Some ''ERR_FS_CP_DIR_TO_NON_DIR'', dst)))"
| "copyEntries [] r' es' = (None, Some (Dir r' es'))"
| "copyEntries ((name, n) # es) r' es' =
     (case copyNode n (map_of es' name) of
        (err, None) \<Rightarrow> (case err of None \<Rightarrow> copyEntries es r' es' | Some e \<Rightarrow> (Some e, Some (Dir r' es')))
      | (err, Some n') \<Rightarrow>
          (case err of
             None \<Rightarrow> copyEntries es r' (AList.update name n' es')
           | Some e \<Rightarrow> (Some e, Some (Dir r' (AList.update name n' es')))))"

definition cp :: "node \<Rightarrow> string \<Rightarrow> string \<Rightarrow> string option \<times> node" where
  "cp fs src dst =
     (case nodeAt fs src of
        None \<Rightarrow> (Some ''ENOENT'', fs)
      | Some s \<Rightarrow>
          if prefix (components src) (components dst) then (Some ''ERR_FS_CP_EINVAL'', fs)
          else (case mkdirp (butlast (components dst)) fs of
                  None \<Rightarrow> (Some ''ENOTDIR'', fs)
                | Some fs0 \<Rightarrow>
                    (case copyNode s (nodeAt fs0 dst) of
                       (err, None) \<Rightarrow> (err, fs0)
                     | (err, Some d) \<Rightarrow>
                         (case putAt (components dst) (Some d) fs0 of
                            None \<Rightarrow> (err, d)
                          | Some fs' \<Rightarrow> (err, fs')))))"

section \<open>The process state\<close>

text \<open>
  An exception is an \<^verbatim>\<open>Error\<close> object: its name and its message. A template
  such as \<^verbatim>\<open>`${error}`\<close> prints both.
\<close>

datatype exn = Exn string string

fun message :: "exn \<Rightarrow> string" where
  "message (Exn name msg) = msg"

fun errorString :: "exn \<Rightarrow> string" where
  "errorString (Exn name msg) = (if msg = [] then name else name @ '': '' @ msg)"

datatype source_type = Remote | Local

text \<open>
  A source object as the registry file holds it. An entry written by an older version
  has a \<open>namespace\<close> and no \<open>name\<close>; a field that is absent is \<open>None\<close>.
\<close>

record source =
  s_type :: source_type
  s_url :: "string option"
  s_path :: "string option"
  s_name :: "string option"
  s_namespace :: "string option"

record target =
  t_name :: string
  t_path :: string

record config =
  sources :: "source list"
  targets :: "target list"

text \<open>
  The state of a run: the file system, the lines written to the console, and the
  module-level object \<^verbatim>\<open>DEFAULT_CONFIG\<close> of config.ts, which \<open>readConfig\<close>
  returns itself (not a copy) and which its callers may therefore mutate.
\<close>

record world =
  fs :: node
  out :: "string list"
  DEFAULT_CONFIG :: config

definition emptyConfig :: config where
  "emptyConfig = \<lparr>sources = [], targets = []\<rparr>"

datatype 'a result = Ok 'a world | Throw exn world

type_synonym 'a prog = "world \<Rightarrow> 'a result"

definition ret :: "'a \<Rightarrow> 'a prog" where
  "ret x w = Ok x w"

definition throw :: "exn \<Rightarrow> 'a prog" where
  "throw e w = Throw e w"

definition andThen :: "'a prog \<Rightarrow> ('a \<Rightarrow> 'b prog) \<Rightarrow> 'b prog" where
  "andThen m f w = (case m w of Ok x w' \<Rightarrow> f x w' | Throw e w' \<Rightarrow> Throw e w')"

definition tryCatch :: "'a prog \<Rightarrow> (exn \<Rightarrow> 'a prog) \<Rightarrow> 'a prog" where
  "tryCatch body handler w = (case body w of Ok x w' \<Rightarrow> Ok x w' | Throw e w' \<Rightarrow> handler e w')"

text \<open>\<^verbatim>\<open>console.log\<close> and \<^verbatim>\<open>console.error\<close> write a line to the one console.\<close>

definition log :: "string \<Rightarrow> unit prog" where
  "log line w = Ok () (w\<lparr>out := out w @ [line]\<rparr>)"

text \<open>
  The platform: the home directory, the JSON codec restricted to registry documents
  (\<open>jsonParse\<close> is \<open>None\<close> where \<^verbatim>\<open>json()\<close> raises), and the git client, which
  maps the arguments and the file system to a failure message, if the exit code is
  not zero, and the file system it leaves.
\<close>

record env =
  homedir :: string
  jsonParse :: "string \<Rightarrow> config option"
  jsonStringify :: "config \<Rightarrow> string"
  git :: "string list \<Rightarrow> node \<Rightarrow> string option \<times> node"

definition mkdirW :: "string \<Rightarrow> unit prog" where
  "mkdirW p w =
     (case mkdir (fs w) p of
        None \<Rightarrow> Throw (Exn ''Error'' ''EEXIST'') w
      | Some fs' \<Rightarrow> Ok () (w\<lparr>fs := fs'\<rparr>))"

definition rmrfW :: "string \<Rightarrow> unit prog" where
  "rmrfW p w = Ok () (w\<lparr>fs := rmrf (fs w) p\<rparr>)"

definition rmFileW :: "string \<Rightarrow> unit prog" where
  "rmFileW p w =
     (case rmFile (fs w) p of
        None \<Rightarrow> Throw (Exn ''Error'' ''ERR_FS_EISDIR'') w
      | Some fs' \<Rightarrow> Ok () (w\<lparr>fs := fs'\<rparr>))"

definition renameW :: "string \<Rightarrow> string \<Rightarrow> unit prog" where
  "renameW old new w =
     (case rename (fs w) old new of
        None \<Rightarrow> Throw (Exn ''Error'' ''ENOENT'') w
      | Some fs' \<Rightarrow> Ok () (w\<lparr>fs := fs'\<rparr>))"

definition writeW :: "string \<Rightarrow> string \<Rightarrow> unit prog" where
  "writeW p content w =
     (case writeFile (fs w) p content of
        None \<Rightarrow> Throw (Exn ''Error'' ''EISDIR'') w
      | Some fs' \<Rightarrow> Ok () (w\<lparr>fs := fs'\<rparr>))"

definition readdirW :: "string \<Rightarrow> string list prog" where
  "readdirW p w =
     (case readdir (fs w) p of
        None \<Rightarrow> Throw (Exn ''Error'' ''ENOTDIR'') w
      | Some names \<Rightarrow> Ok names w)"

definition cpW :: "string \<Rightarrow> string \<Rightarrow> unit prog" where
  "cpW src dst w =
     (case cp (fs w) src dst of
        (None, fs') \<Rightarrow> Ok () (w\<lparr>fs := fs'\<rparr>)
      | (Some code, fs') \<Rightarrow> Throw (Exn ''Error'' code) (w\<lparr>fs := fs'\<rparr>))"

definition gitW :: "env \<Rightarrow> string list \<Rightarrow> unit prog" where
  "gitW E args w =
     (case git E args (fs w) of
        (None, fs') \<Rightarrow> Ok () (w\<lparr>fs := fs'\<rparr>)
      | (Some msg, fs') \<Rightarrow> Throw (Exn ''ShellError'' msg) (w\<lparr>fs := fs'\<rparr>))"

section \<open>The registry (src/lib/config.ts)\<close>

definition SKILLS_ROOT :: "env \<Rightarrow> string" where
  "SKILLS_ROOT E = homedir E @ ''/.skills''"

definition SKILLS_STORE :: "env \<Rightarrow> string" where
  "SKILLS_STORE E = SKILLS_ROOT E @ ''/store''"

definition CONFIG_PATH :: "env \<Rightarrow> string" where
  "CONFIG_PATH E = SKILLS_ROOT E @ ''/config.json''"

text \<open>
  Modelled from the spec: \<open>getSkillPath\<close> of lib/paths.ts, which is not among the
  sources (the version there is the older \<open>getNamespacePath\<close>): the store
  subdirectory of a source is \<^verbatim>\<open>store/<name>/\<close>.
\<close>

definition getSkillPath :: "env \<Rightarrow> string \<Rightarrow> string" where
  "getSkillPath E name = SKILLS_STORE E @ ''/'' @ name"

text \<open>
  A variable of type \<^verbatim>\<open>Config\<close> refers either to the module's
  \<^verbatim>\<open>DEFAULT_CONFIG\<close> or to an object of its own.
\<close>

datatype cref = Shared | Fresh config

definition deref :: "world \<Rightarrow> cref \<Rightarrow> config" where
  "deref w r = (case r of Shared \<Rightarrow> DEFAULT_CONFIG w | Fresh c \<Rightarrow> c)"

definition assign :: "cref \<Rightarrow> config \<Rightarrow> world \<Rightarrow> cref \<times> world" where
  "assign r c w = (case r of Shared \<Rightarrow> (Shared, w\<lparr>DEFAULT_CONFIG := c\<rparr>) | Fresh old \<Rightarrow> (Fresh c, w))"

definition truthy :: "string option \<Rightarrow> bool" where
  "truthy v = (case v of None \<Rightarrow> False | Some s \<Rightarrow> s \<noteq> [])"

definition showOpt :: "string option \<Rightarrow> string" where
  "showOpt v = (case v of None \<Rightarrow> ''undefined'' | Some s \<Rightarrow> s)"

definition ensureDirectories :: "env \<Rightarrow> unit prog" where
  "ensureDirectories E = andThen (mkdirW (SKILLS_ROOT E)) (\<lambda>_. mkdirW (SKILLS_STORE E))"

definition writeConfig :: "env \<Rightarrow> config \<Rightarrow> unit prog" where
  "writeConfig E config =
     andThen (ensureDirectories E) (\<lambda>_. writeW (CONFIG_PATH E) (jsonStringify E config))"

definition readJson :: "env \<Rightarrow> string \<Rightarrow> config prog" where
  "readJson E p w =
     (case nodeAt (fs w) p of
        Some (File True text) \<Rightarrow>
          (case jsonParse E text of
             None \<Rightarrow> Throw (Exn ''SyntaxError'' ''JSON Parse error'') w
           | Some content \<Rightarrow> Ok content w)
      | _ \<Rightarrow> Throw (Exn ''Error'' ''EACCES'') w)"

definition migrateSkillFolder :: "env \<Rightarrow> string \<Rightarrow> string \<Rightarrow> unit prog" where
  "migrateSkillFolder E oldNamespace newName =
     (let oldPath = SKILLS_STORE E @ ''/'' @ oldNamespace;
          newPath = SKILLS_STORE E @ ''/'' @ newName
      in tryCatch
           (\<lambda>w. if fileExists (fs w) (oldPath @ ''/SKILL.md'') \<or> fileExists (fs w) oldPath
                then (if \<not> fileExists (fs w) newPath
                      then andThen (renameW oldPath newPath) (\<lambda>_.
                           andThen (log (''Migrated skill folder: '' @ oldNamespace @ '' -> '' @ newName)) (\<lambda>_.
                           tryCatch
                             (rmFileW (SKILLS_STORE E @ ''/'' @ hd (splitOn CHR ''/'' oldNamespace)))
                             (\<lambda>e. ret ()))) w
                      else ret () w)
                else ret () w)
           (\<lambda>e. ret ()))"

text \<open>
  The migration loop of \<open>readConfig\<close>: the sources after it, and whether one was
  rewritten (\<^verbatim>\<open>needsMigration\<close>).
\<close>

definition legacy :: "source \<Rightarrow> bool" where
  "legacy source = (truthy (s_namespace source) \<and> \<not> truthy (s_name source))"

fun migrateSources :: "env \<Rightarrow> source list \<Rightarrow> (source list \<times> bool) prog" where
  "migrateSources E [] = ret ([], False)"
| "migrateSources E (source # rest) =
     (if legacy source
      then (let oldNamespace = showOpt (s_namespace source);
                newName = last (splitOn CHR ''/'' oldNamespace)
            in andThen (migrateSkillFolder E oldNamespace newName) (\<lambda>_.
               andThen (migrateSources E rest) (\<lambda>(rest', needsMigration).
               ret (source\<lparr>s_name := Some newName, s_namespace := None\<rparr> # rest', True))))
      else andThen (migrateSources E rest) (\<lambda>(rest', needsMigration).
           ret (source # rest', needsMigration)))"

definition readConfig :: "env \<Rightarrow> cref prog" where
  "readConfig E =
     andThen (ensureDirectories E) (\<lambda>_ w.
       if \<not> fileExists (fs w) (CONFIG_PATH E)
       then andThen (writeConfig E (DEFAULT_CONFIG w)) (\<lambda>_. ret Shared) w
       else tryCatch
              (andThen (readJson E (CONFIG_PATH E)) (\<lambda>content.
               andThen (migrateSources E (sources content)) (\<lambda>(migrated, needsMigration).
               andThen (if needsMigration
                        then writeConfig E (content\<lparr>sources := migrated\<rparr>)
                        else ret ()) (\<lambda>_.
               ret (Fresh (content\<lparr>sources := migrated\<rparr>))))))
              (\<lambda>e w'. andThen (writeConfig E (DEFAULT_CONFIG w')) (\<lambda>_. ret Shared) w')
              w)"

fun findIndex :: "('a \<Rightarrow> bool) \<Rightarrow> 'a list \<Rightarrow> nat option" where
  "findIndex P [] = None"
| "findIndex P (x # xs) = (if P x then Some 0 else map_option Suc (findIndex P xs))"

definition quoted :: "string \<Rightarrow> string" where
  "quoted s = [CHR 0x22] @ s @ [CHR 0x22]"

definition addSource :: "env \<Rightarrow> source \<Rightarrow> unit prog" where
  "addSource E source =
     andThen (readConfig E) (\<lambda>config w.
       if find (\<lambda>s. s_name s = s_name source) (sources (deref w config)) \<noteq> None
       then throw (Exn ''Error''
              (''Skill with name '' @ quoted (showOpt (s_name source)) @ '' already exists'')) w
       else (let c = deref w config;
                 c' = c\<lparr>sources := sources c @ [source]\<rparr>
             in writeConfig E c' (snd (assign config c' w))))"

definition removeSource :: "env \<Rightarrow> string \<Rightarrow> source option prog" where
  "removeSource E name =
     andThen (readConfig E) (\<lambda>config w.
       let c = deref w config in
       case findIndex (\<lambda>s. s_name s = Some name) (sources c) of
         None \<Rightarrow> ret None w
       | Some index \<Rightarrow>
           (let removed = sources c ! index;
                c' = c\<lparr>sources := take index (sources c) @ drop (Suc index) (sources c)\<rparr>
            in andThen (writeConfig E c') (\<lambda>_. ret (Some removed)) (snd (assign config c' w))))"

definition getSources :: "env \<Rightarrow> source list prog" where
  "getSources E = andThen (readConfig E) (\<lambda>config w. ret (sources (deref w config)) w)"

definition addTarget :: "env \<Rightarrow> target \<Rightarrow> unit prog" where
  "addTarget E target =
     andThen (readConfig E) (\<lambda>config w.
       if find (\<lambda>t. t_name t = t_name target) (targets (deref w config)) \<noteq> None
       then throw (Exn ''Error''
              (''Target with name '' @ quoted (t_name target) @ '' already exists'')) w
       else (let c = deref w config;
                 c' = c\<lparr>targets := targets c @ [target]\<rparr>
             in writeConfig E c' (snd (assign config c' w))))"



section \<open>Synchronisation (src/commands/sync.ts)\<close>

fun removeEach :: "string \<Rightarrow> string list \<Rightarrow> unit prog" where
  "removeEach dir [] = ret ()"
| "removeEach dir (file # files) = andThen (rmrfW (dir @ ''/'' @ file)) (\<lambda>_. removeEach dir files)"

definition syncToTarget :: "env \<Rightarrow> target \<Rightarrow> unit prog" where
  "syncToTarget E target =
     andThen (mkdirW (t_path target)) (\<lambda>_ w.
       if \<not> directoryExists (fs w) (SKILLS_STORE E)
       then log (''  '' @ t_name target @ '': Store is empty, nothing to sync'') w
       else andThen (tryCatch
                       (andThen (readdirW (t_path target)) (\<lambda>existingFiles.
                        removeEach (t_path target) existingFiles))
                       (\<lambda>e. ret ())) (\<lambda>_.
            andThen (cpW (SKILLS_STORE E) (t_path target)) (\<lambda>_.
            log (''  '' @ t_name target @ '': Synced''))) w)"



section \<open>Refreshing the store (src/commands/update.ts)\<close>

definition orDefault :: "string option \<Rightarrow> string \<Rightarrow> string" where
  "orDefault v d = (if truthy v then showOpt v else d)"

definition cloneSubdir :: "env \<Rightarrow> string \<Rightarrow> string \<Rightarrow> string \<Rightarrow> string \<Rightarrow> unit prog" where
  "cloneSubdir E branchName url sub targetPath =
     (let tempPath = targetPath @ ''_temp'' in
      andThen (gitW E [''clone'', ''--filter=blob:none'', ''--no-checkout'', ''--depth'', ''1'',
                       ''--branch'', branchName, url, tempPath]) (\<lambda>_.
      andThen (gitW E [''-C'', tempPath, ''sparse-checkout'', ''init'', ''--cone'']) (\<lambda>_.
      andThen (gitW E [''-C'', tempPath, ''sparse-checkout'', ''set'', sub]) (\<lambda>_.
      andThen (gitW E [''-C'', tempPath, ''checkout'']) (\<lambda>_.
      andThen (cpW (tempPath @ ''/'' @ sub) targetPath) (\<lambda>_.
      rmrfW tempPath))))))"

definition cloneWhole :: "env \<Rightarrow> string \<Rightarrow> string \<Rightarrow> string \<Rightarrow> unit prog" where
  "cloneWhole E branchName url targetPath =
     andThen (gitW E [''clone'', ''--depth'', ''1'', ''--branch'', branchName, url, targetPath]) (\<lambda>_.
     rmrfW (targetPath @ ''/.git''))"

definition updateRemoteSource :: "env \<Rightarrow> string \<Rightarrow> string \<Rightarrow> unit prog" where
  "updateRemoteSource E name url =
     (let targetPath = getSkillPath E name in
      case parseGitUrl url of
        None \<Rightarrow> throw (Exn ''Error'' (''Invalid URL: '' @ url))
      | Some parsed \<Rightarrow>
          andThen (log (''  '' @ name @ '': Updating from '' @ url @ ''...'')) (\<lambda>_.
          andThen (rmrfW targetPath) (\<lambda>_.
          tryCatch
            (andThen (if truthy (subdir parsed)
                      then cloneSubdir E (orDefault (branch parsed) ''main'') (cloneUrl parsed)
                             (showOpt (subdir parsed)) targetPath
                      else cloneWhole E (orDefault (branch parsed) ''main'') (cloneUrl parsed)
                             targetPath) (\<lambda>_.
             log (''  '' @ name @ '': Updated'')))
            (\<lambda>error.
               andThen (rmrfW (targetPath @ ''_temp'')) (\<lambda>_.
               throw (Exn ''Error'' (''Failed to clone: '' @ errorString error)))))))"

definition updateLocalSource :: "env \<Rightarrow> string \<Rightarrow> string \<Rightarrow> unit prog" where
  "updateLocalSource E name sourcePath =
     (let targetPath = getSkillPath E name in
      andThen (log (''  '' @ name @ '': Updating from '' @ sourcePath @ ''...'')) (\<lambda>_ w.
        if \<not> directoryExists (fs w) sourcePath
        then throw (Exn ''Error'' (''Source folder no longer exists: '' @ sourcePath)) w
        else andThen (rmrfW targetPath) (\<lambda>_.
             andThen (cpW sourcePath targetPath) (\<lambda>_.
             log (''  '' @ name @ '': Updated''))) w))"

text \<open>
  One turn of the loop of \<open>update\<close>. A source object that lacks the field the call
  reads makes the callee raise a \<^verbatim>\<open>TypeError\<close> on its first use of it.
\<close>

definition updateOne :: "env \<Rightarrow> source \<Rightarrow> unit prog" where
  "updateOne E source =
     (if s_type source = Remote
      then (case (s_name source, s_url source) of
              (Some name, Some url) \<Rightarrow> updateRemoteSource E name url
            | _ \<Rightarrow> throw (Exn ''TypeError'' ''undefined is not a string''))
      else (case (s_name source, s_path source) of
              (Some name, Some path) \<Rightarrow> updateLocalSource E name path
            | _ \<Rightarrow> throw (Exn ''TypeError'' ''undefined is not a string'')))"

fun updateEach :: "env \<Rightarrow> source list \<Rightarrow> unit prog" where
  "updateEach E [] = ret ()"
| "updateEach E (source # rest) =
     andThen (tryCatch (updateOne E source)
                (\<lambda>error. log (''  '' @ showOpt (s_name source) @ '': Failed - '' @ message error))) (\<lambda>_.
     updateEach E rest)"

definition update :: "env \<Rightarrow> unit prog" where
  "update E =
     andThen (getSources E) (\<lambda>sources w.
       if length sources = 0
       then andThen (log ''No sources registered.'') (\<lambda>_.
            log ''Add a source with: skills source add <url> --remote'') w
       else andThen (log (''Updating all sources...'' @ [CHR 0x0A])) (\<lambda>_.
            andThen (updateEach E sources) (\<lambda>_.
            andThen (log ([CHR 0x0A] @ ''Update complete.'')) (\<lambda>_.
            log ''Run 'skills sync' to push changes to targets.''))) w)"

section \<open>Adding a remote source (src/commands/source.ts)\<close>

text \<open>
  Modelled from the spec: \<open>getDefaultSkillName\<close> of lib/paths.ts, which is not among
  the sources: if a subdirectory is present, its final path segment; otherwise the
  repository name.
\<close>

definition getDefaultSkillName :: "ParsedGitUrl \<Rightarrow> string" where
  "getDefaultSkillName parsed =
     (if truthy (subdir parsed) then last (splitOn CHR ''/'' (showOpt (subdir parsed)))
      else repo parsed)"

definition addRemoteSource :: "env \<Rightarrow> string \<Rightarrow> string option \<Rightarrow> unit prog" where
  "addRemoteSource E url customName =
     (case parseGitUrl url of
        None \<Rightarrow> throw (Exn ''Error'' (''Invalid Git URL: '' @ url))
      | Some parsed \<Rightarrow>
          (let defaultName = getDefaultSkillName parsed;
               skillName = orDefault customName defaultName;
               targetPath = getSkillPath E skillName
           in andThen (log (''Adding remote source: '' @ url)) (\<lambda>_.
              andThen (log (''Skill name: '' @ skillName)) (\<lambda>_.
              andThen (if truthy customName \<and> customName \<noteq> Some defaultName
                       then log (''  (renamed from: '' @ defaultName @ '')'') else ret ()) (\<lambda>_.
              andThen (if truthy (subdir parsed)
                       then log (''Subdirectory: '' @ showOpt (subdir parsed)) else ret ()) (\<lambda>_ w.
                if directoryExists (fs w) targetPath
                then throw (Exn ''Error'' (''Skill '' @ quoted skillName @ '' already exists.'')) w
                else andThen (log ''Cloning repository...'') (\<lambda>_.
                     andThen (tryCatch
                                (if truthy (subdir parsed)
                                 then cloneSubdir E (orDefault (branch parsed) ''main'') (cloneUrl parsed)
                                        (showOpt (subdir parsed)) targetPath
                                 else cloneWhole E (orDefault (branch parsed) ''main'') (cloneUrl parsed)
                                        targetPath)
                                (\<lambda>error.
                                   andThen (rmrfW targetPath) (\<lambda>_.
                                   andThen (rmrfW (targetPath @ ''_temp'')) (\<lambda>_.
                                   throw (Exn ''Error''
                                     (''Failed to clone repository: '' @ errorString error)))))) (\<lambda>_.
                     andThen (addSource E \<lparr>s_type = Remote, s_url = Some url, s_path = None,
                                           s_name = Some skillName, s_namespace = None\<rparr>) (\<lambda>_.
                     log (''Successfully added skill: '' @ skillName)))) w))))))"

section \<open>Removing a target (src/commands/target.ts)\<close>


section \<open>What a program writes to the console\<close>

fun worldOf :: "'a result \<Rightarrow> world" where
  "worldOf (Ok x w) = w"
| "worldOf (Throw e w) = w"

text \<open>A program is silent when it writes nothing, and grows the console when it only appends.\<close>

definition silent :: "'a prog \<Rightarrow> bool" where
  "silent m = (\<forall>w. out (worldOf (m w)) = out w)"




section \<open>Invariants of the registry\<close>

text \<open>
  A program keeps the module-level default when no run of it changes \<^verbatim>\<open>DEFAULT_CONFIG\<close>.
\<close>

definition keepsDefault :: "'a prog \<Rightarrow> bool" where
  "keepsDefault m = (\<forall>w. DEFAULT_CONFIG (worldOf (m w)) = DEFAULT_CONFIG w)"

text \<open>
  The tool is installed in a world when \<^verbatim>\<open>~/.skills\<close> and its store are directories.
\<close>

definition installed :: "env \<Rightarrow> world \<Rightarrow> bool" where
  "installed E w = (directoryExists (fs w) (SKILLS_ROOT E) \<and> directoryExists (fs w) (SKILLS_STORE E))"

text \<open>
  Two paths are apart when neither lies on the way to the other: a change below one of them
  cannot be seen from the other.
\<close>

definition apart :: "string list \<Rightarrow> string list \<Rightarrow> bool" where
  "apart p q = (\<not> prefix p q \<and> \<not> prefix q p)"


section \<open>Concrete runs\<close>

text \<open>
  An installation with an empty store and a target directory that holds a file of the
  user; a codec that fails on every text; a git client that succeeds without effect,
  and one whose \<^verbatim>\<open>clone\<close> creates the directory it is given and then exits with
  code 128 (as git does when the clone succeeds and the checkout fails).
\<close>

definition demoEnv :: env where
  "demoEnv = \<lparr>homedir = ''/home/u'', jsonParse = (\<lambda>text. None),
              jsonStringify = (\<lambda>c. ''{}''), git = (\<lambda>args tree. (None, tree))\<rparr>"

definition checkoutFails :: "string list \<Rightarrow> node \<Rightarrow> string option \<times> node" where
  "checkoutFails args tree =
     (if take 1 args = [''clone'']
      then (case mkdir tree (last args) of
              Some tree' \<Rightarrow> (Some ''Failed with exit code 128'', tree')
            | None \<Rightarrow> (Some ''Failed with exit code 128'', tree))
      else (None, tree))"

definition failEnv :: env where
  "failEnv = demoEnv\<lparr>git := checkoutFails\<rparr>"

definition homeWith :: "(string \<times> node) list \<Rightarrow> (string \<times> node) list \<Rightarrow> node" where
  "homeWith store rest =
     Dir True ((''home'', Dir True [(''u'', Dir True [(''.skills'', Dir True [(''store'', Dir True store)])])])
               # rest)"

definition emptyStoreWorld :: world where
  "emptyStoreWorld =
     \<lparr>fs = homeWith [] [(''t'', Dir True [(''notes.txt'', File True ''mine'')])],
      out = [], DEFAULT_CONFIG = emptyConfig\<rparr>"

definition cursorTarget :: target where
  "cursorTarget = \<lparr>t_name = ''cursor'', t_path = ''/t''\<rparr>"


definition badSource :: source where
  "badSource = \<lparr>s_type = Remote, s_url = Some ''not-a-url'', s_path = None,
                 s_name = Some ''broken'', s_namespace = None\<rparr>"

definition localSource :: source where
  "localSource = \<lparr>s_type = Local, s_url = None, s_path = Some ''/t'',
                   s_name = Some ''mine'', s_namespace = None\<rparr>"


text \<open>
  A codec that knows four registries: the empty one, the one with the single source
  \<^verbatim>\<open>mine\<close>, and the ones with the single target \<^verbatim>\<open>cursor\<close> or \<^verbatim>\<open>self\<close>, a target whose directory is
  \<^verbatim>\<open>~/.skills\<close> itself.
\<close>

definition oneSource :: config where
  "oneSource = \<lparr>sources = [localSource], targets = []\<rparr>"

definition oneTarget :: config where
  "oneTarget = \<lparr>sources = [], targets = [cursorTarget]\<rparr>"

definition selfTarget :: target where
  "selfTarget = \<lparr>t_name = ''self'', t_path = ''/home/u/.skills''\<rparr>"

definition selfConfig :: config where
  "selfConfig = \<lparr>sources = [], targets = [selfTarget]\<rparr>"

definition codecEnv :: env where
  "codecEnv = demoEnv\<lparr>
     jsonStringify := (\<lambda>c. if c = emptyConfig then ''{}''
                           else if c = oneSource then ''{mine}''
                           else if c = oneTarget then ''{cursor}''
                           else if c = selfConfig then ''{self}'' else ''?''),
     jsonParse := (\<lambda>text. if text = ''{}'' then Some emptyConfig
                           else if text = ''{mine}'' then Some oneSource
                           else if text = ''{cursor}'' then Some oneTarget
                           else if text = ''{self}'' then Some selfConfig else None)\<rparr>"

text \<open>
  The world left by registering the source \<^verbatim>\<open>mine\<close> in a fresh installation, and an
  installation whose registry file holds a given text.
\<close>

definition registeredWorld :: world where
  "registeredWorld =
     \<lparr>fs = Dir True [(''home'', Dir True [(''u'', Dir True [(''.skills'',
             Dir True [(''store'', Dir True []), (''config.json'', File True ''{mine}'')])])]),
                     (''t'', Dir True [(''notes.txt'', File True ''mine'')])],
      out = [], DEFAULT_CONFIG = oneSource\<rparr>"



section \<open>Properties of the fingerprint\<close>

lemma hexDigit_not_m: "d < 16 \<Longrightarrow> hexDigit d \<noteq> CHR ''m''"
proof -
  assume "d < 16"
  then have "d \<in> set [0..<16]" by simp
  then show ?thesis unfolding hexDigit_def by (auto simp: upt_rec)
qed

lemma toString16_no_m: "CHR ''m'' \<notin> set (toString16 n)"
proof (induction n rule: toString16.induct)
  case (1 n)
  show ?case
  proof (cases "n < 16")
    case True
    then show ?thesis using hexDigit_not_m[of n] by (subst toString16.simps) auto
  next
    case False
    then have "CHR ''m'' \<notin> set (toString16 (n div 16))" using 1 by simp
    moreover have "hexDigit (n mod 16) \<noteq> CHR ''m''" by (rule hexDigit_not_m) simp
    ultimately show ?thesis using False by (subst toString16.simps) simp
  qed
qed

lemma hashHex_not_empty: "hashHex H bytes \<noteq> ''empty''"
proof
  assume "hashHex H bytes = ''empty''"
  then have "CHR ''m'' \<in> set (toString16 (unat (H bytes)))" by (simp add: hashHex_def)
  then show False using toString16_no_m by blast
qed

lemma hashFiles_empty_iff: "hashFiles H lc files = ''empty'' \<longleftrightarrow> files = []"
  using hashHex_not_empty[of H "combine lc files"] by (auto simp: hashFiles_def)

text \<open>
  C9. \<open>hashDirectory\<close> has no failing branch: every read failure of
  \<open>getDirectoryFiles\<close> ends in its \<^verbatim>\<open>catch\<close>, so the result is always a string.
  A path that names nothing, a regular file (readable or not), an entry of another
  kind, or a directory whose listing is denied yields no file and so the sentinel
  \<open>empty\<close>. The sentinel is returned exactly when no file was collected, and no
  hexadecimal digest equals it.
\<close>

theorem hashDirectory_sentinel:
  "((nodeAt tree p = None \<or> (\<exists>r c. nodeAt tree p = Some (File r c)) \<or> nodeAt tree p = Some Special
      \<or> (\<exists>es. nodeAt tree p = Some (Dir False es)))
     \<longrightarrow> filesAt H tree p = [] \<and> hashDirectory H lc tree p = ''empty'')
   \<and> (hashDirectory H lc tree p = ''empty'' \<longleftrightarrow> filesAt H tree p = [])
   \<and> (filesAt H tree p \<noteq> [] \<longrightarrow>
        hashDirectory H lc tree p = hashHex H (combine lc (filesAt H tree p)))
   \<and> (\<forall>bytes. hashHex H bytes \<noteq> ''empty'')"
proof -
  have a: "hashDirectory H lc tree p = ''empty'' \<longleftrightarrow> filesAt H tree p = []"
    by (simp add: hashDirectory_def hashFiles_empty_iff)
  have b: "filesAt H tree p = []"
    if "nodeAt tree p = None \<or> (\<exists>r c. nodeAt tree p = Some (File r c)) \<or> nodeAt tree p = Some Special
        \<or> (\<exists>es. nodeAt tree p = Some (Dir False es))"
    using that by (auto simp: filesAt_def)
  have c: "hashDirectory H lc tree p = hashHex H (combine lc (filesAt H tree p))"
    if "filesAt H tree p \<noteq> []"
    using that by (simp add: hashDirectory_def hashFiles_def)
  show ?thesis using a b c hashHex_not_empty by blast
qed

theorem hashDirectory_sentinel_witness:
  "hashDirectory lengthHash byteCompare demoTree ''/missing'' = ''empty''
   \<and> hashDirectory lengthHash byteCompare demoTree ''/notes.txt'' = ''empty''
   \<and> hashDirectory lengthHash byteCompare demoTree ''/locked'' = ''empty''
   \<and> hashDirectory lengthHash byteCompare demoTree ''/pipe'' = ''empty''
   \<and> filesAt lengthHash demoTree ''/store'' = [(''skill/SKILL.md'', ''3'')]
   \<and> hashDirectory lengthHash byteCompare demoTree ''/store'' = ''10''"
proof -
  have n1: "nodeAt demoTree ''/missing'' = None"
    by (simp add: nodeAt_def components_def parts_def resolveDots_def demoTree_def)
  have n2: "nodeAt demoTree ''/notes.txt'' = Some (File True ''hello'')"
    by (simp add: nodeAt_def components_def parts_def resolveDots_def demoTree_def)
  have n3: "nodeAt demoTree ''/locked'' = Some (Dir False [(''x'', File True ''y'')])"
    by (simp add: nodeAt_def components_def parts_def resolveDots_def demoTree_def)
  have n4: "nodeAt demoTree ''/pipe'' = Some Special"
    by (simp add: nodeAt_def components_def parts_def resolveDots_def demoTree_def)
  have n5: "nodeAt demoTree ''/store''
      = Some (Dir True [(''skill'', Dir True [(''SKILL.md'', File True ''abc'')])])"
    by (simp add: nodeAt_def components_def parts_def resolveDots_def demoTree_def)
  have f5: "filesAt lengthHash demoTree ''/store'' = [(''skill/SKILL.md'', ''3'')]"
    by (simp add: filesAt_def n5 setAll_def relativePath_def hashHex_def lengthHash_def
        hexDigit_def)
  have c5: "hashHex lengthHash (combine byteCompare [(''skill/SKILL.md'', ''3'')]) = ''10''"
    by (simp add: combine_def sortBy_def hashHex_def lengthHash_def hexDigit_def)
  have a: "hashDirectory lengthHash byteCompare demoTree ''/missing'' = ''empty''"
    using hashDirectory_sentinel[where tree=demoTree and p="''/missing''" and H=lengthHash and lc=byteCompare] n1
    by blast
  have b: "hashDirectory lengthHash byteCompare demoTree ''/notes.txt'' = ''empty''"
    using hashDirectory_sentinel[where tree=demoTree and p="''/notes.txt''" and H=lengthHash and lc=byteCompare] n2
    by blast
  have c: "hashDirectory lengthHash byteCompare demoTree ''/locked'' = ''empty''"
    using hashDirectory_sentinel[where tree=demoTree and p="''/locked''" and H=lengthHash and lc=byteCompare] n3
    by blast
  have d: "hashDirectory lengthHash byteCompare demoTree ''/pipe'' = ''empty''"
    using hashDirectory_sentinel[where tree=demoTree and p="''/pipe''" and H=lengthHash and lc=byteCompare] n4
    by blast
  have e: "hashDirectory lengthHash byteCompare demoTree ''/store'' = ''10''"
    using hashDirectory_sentinel[where tree=demoTree and p="''/store''" and H=lengthHash and lc=byteCompare] f5 c5
    by simp
  show ?thesis using a b c d e f5 by simp
qed

text \<open>
  C4. \<open>compareDirectories\<close> answers \<open>TargetMissing\<close> exactly when the target
  path does not name a directory (it names nothing, a file or another kind of entry);
  \<open>Synced\<close> exactly when the target is a directory and the two fingerprints are
  equal, which includes the case that both are the sentinel \<open>empty\<close>; and
  \<open>NotSynced\<close> in every other case.
\<close>

theorem compareDirectories_cases:
  "(directoryExists tree tgt \<longleftrightarrow> (\<exists>r es. nodeAt tree tgt = Some (Dir r es)))
   \<and> (compareDirectories H lc tree src tgt = TargetMissing \<longleftrightarrow> \<not> directoryExists tree tgt)
   \<and> (compareDirectories H lc tree src tgt = Synced \<longleftrightarrow>
        directoryExists tree tgt \<and> hashDirectory H lc tree src = hashDirectory H lc tree tgt)
   \<and> (compareDirectories H lc tree src tgt = NotSynced \<longleftrightarrow>
        directoryExists tree tgt \<and> hashDirectory H lc tree src \<noteq> hashDirectory H lc tree tgt)
   \<and> (directoryExists tree tgt \<and> hashDirectory H lc tree src = ''empty''
        \<and> hashDirectory H lc tree tgt = ''empty''
       \<longrightarrow> compareDirectories H lc tree src tgt = Synced)"
proof -
  have "directoryExists tree tgt \<longleftrightarrow> (\<exists>r es. nodeAt tree tgt = Some (Dir r es))"
    by (auto simp: directoryExists_def split: option.splits node.splits)
  then show ?thesis by (auto simp: compareDirectories_def)
qed

theorem compareDirectories_cases_witness:
  "compareDirectories lengthHash byteCompare demoTree ''/missing'' ''/blank'' = Synced
   \<and> compareDirectories lengthHash byteCompare demoTree ''/store'' ''/blank'' = NotSynced
   \<and> compareDirectories lengthHash byteCompare demoTree ''/store'' ''/notes.txt'' = TargetMissing"
proof -
  have d1: "directoryExists demoTree ''/blank''"
    by (simp add: directoryExists_def nodeAt_def components_def parts_def resolveDots_def
        demoTree_def)
  have d2: "\<not> directoryExists demoTree ''/notes.txt''"
    by (simp add: directoryExists_def nodeAt_def components_def parts_def resolveDots_def
        demoTree_def)
  have h1: "hashDirectory lengthHash byteCompare demoTree ''/missing'' = ''empty''"
    by (simp add: hashDirectory_def hashFiles_def filesAt_def nodeAt_def components_def
        parts_def resolveDots_def demoTree_def)
  have h2: "hashDirectory lengthHash byteCompare demoTree ''/blank'' = ''empty''"
    by (simp add: hashDirectory_def hashFiles_def filesAt_def nodeAt_def components_def
        parts_def resolveDots_def demoTree_def)
  have h3: "hashDirectory lengthHash byteCompare demoTree ''/store'' \<noteq> ''empty''"
    by (simp add: hashDirectory_def hashFiles_empty_iff filesAt_def nodeAt_def components_def
        parts_def resolveDots_def demoTree_def setAll_def)
  have a: "compareDirectories lengthHash byteCompare demoTree ''/missing'' ''/blank'' = Synced"
    using compareDirectories_cases[where tree=demoTree and tgt="''/blank''" and H=lengthHash and lc=byteCompare and src="''/missing''"] d1 h1 h2
    by simp
  have b: "compareDirectories lengthHash byteCompare demoTree ''/store'' ''/blank'' = NotSynced"
    using compareDirectories_cases[where tree=demoTree and tgt="''/blank''" and H=lengthHash and lc=byteCompare and src="''/store''"] d1 h2 h3
    by simp
  have c: "compareDirectories lengthHash byteCompare demoTree ''/store'' ''/notes.txt'' = TargetMissing"
    using compareDirectories_cases[where tree=demoTree and tgt="''/notes.txt''" and H=lengthHash and lc=byteCompare and src="''/store''"] d2
    by simp
  show ?thesis using a b c by simp
qed

section \<open>The fingerprint and the enumeration order\<close>

lemma map_of_rev_distinct: "distinct (map fst xs) \<Longrightarrow> map_of (rev xs) = map_of xs"
  using map_of_inject_set[of "rev xs" xs] by (simp flip: rev_map)

lemma setAll_map_of: "map_of (setAll sub files) = map_of files ++ map_of (rev sub)"
  unfolding setAll_def
proof (induction sub arbitrary: files)
  case Nil
  then show ?case by simp
next
  case (Cons a sub)
  obtain p h where a: "a = (p, h)" by (cases a)
  show ?case
    by (auto simp: a Cons update_conv' fun_eq_iff map_add_def split: option.splits)
qed

lemma setAll_distinct: "distinct (map fst files) \<Longrightarrow> distinct (map fst (setAll sub files))"
  unfolding setAll_def
  by (induction sub arbitrary: files) (auto simp: distinct_update)

lemma files_distinct:
  "distinct (map fst (getDirectoryFiles H n basePath))"
  "distinct (map fst files) \<Longrightarrow> distinct (map fst (scanEntries H es basePath files))"
  by (induction H n basePath and H es basePath files rule: getDirectoryFiles_scanEntries.induct)
    (simp_all add: setAll_distinct distinct_update)

lemma keys_below:
  "basePath \<noteq> [] \<Longrightarrow> p \<in> fst ` set (getDirectoryFiles H n basePath) \<Longrightarrow>
     \<exists>s. p = basePath @ CHR ''/'' # s"
  "basePath \<noteq> [] \<Longrightarrow> p \<in> fst ` set (scanEntries H es basePath files) \<Longrightarrow>
     p \<in> fst ` set files \<or> (\<exists>s. p = basePath @ CHR ''/'' # s)"
proof (induction H n basePath and H es basePath files
    arbitrary: p and p rule: getDirectoryFiles_scanEntries.induct)
  case (1 H r es basePath)
  then show ?case by (auto split: if_splits)
next
  case (5 H name r sub es basePath files)
  from 5(2)[OF 5(3)] 5(4) 
  have "p \<in> fst ` set (setAll (getDirectoryFiles H (Dir r sub) (relativePath basePath name)) files)
      \<or> (\<exists>s. p = basePath @ CHR ''/'' # s)" by simp
  then show ?case
  proof
    assume "p \<in> fst ` set (setAll (getDirectoryFiles H (Dir r sub) (relativePath basePath name)) files)"
    then have "p \<in> dom (map_of files ++ map_of (rev (getDirectoryFiles H (Dir r sub) (relativePath basePath name))))"
      by (simp add: dom_map_of_conv_image_fst flip: setAll_map_of)
    then have "p \<in> fst ` set files \<or> p \<in> fst ` set (getDirectoryFiles H (Dir r sub) (relativePath basePath name))"
      by (auto simp: dom_map_of_conv_image_fst)
    then show ?thesis
    proof
      assume "p \<in> fst ` set (getDirectoryFiles H (Dir r sub) (relativePath basePath name))"
      moreover have "relativePath basePath name \<noteq> []" using 5(3) by (simp add: relativePath_def)
      ultimately obtain s where "p = relativePath basePath name @ CHR ''/'' # s"
        using 5(1) by blast
      then show ?thesis using 5(3) by (simp add: relativePath_def)
    qed simp
  qed simp
next
  case (6 H name r content es basePath files)
  show ?case
  proof (cases r)
    case True
    with 6 have "p \<in> fst ` set (AList.update (relativePath basePath name) (hashHex H content) files)
      \<or> (\<exists>s. p = basePath @ CHR ''/'' # s)" by simp
    then show ?thesis using 6(2) by (auto simp: dom_update relativePath_def)
  next
    case False
    then show ?thesis using 6 by simp
  qed
qed simp_all

lemma firstName_entry:
  assumes "CHR ''/'' \<notin> set name"
    and "p = relativePath basePath name \<or> (\<exists>s. p = relativePath basePath name @ CHR ''/'' # s)"
  shows "firstName basePath p = name"
proof -
  obtain rest where p: "p = relativePath basePath name @ rest"
    and rest: "rest = [] \<or> (\<exists>s. rest = CHR ''/'' # s)"
    using assms(2) by auto
  have tw: "takeWhile (\<lambda>c. c \<noteq> CHR ''/'') (name @ rest) = name"
  proof -
    have "takeWhile (\<lambda>c. c \<noteq> CHR ''/'') (name @ rest)
        = name @ takeWhile (\<lambda>c. c \<noteq> CHR ''/'') rest"
      using assms(1) by (intro takeWhile_append2) auto
    then show ?thesis using rest by auto
  qed
  have "drop (if basePath = [] then 0 else Suc (length basePath)) p = name @ rest"
    by (simp add: p relativePath_def)
  then show ?thesis by (simp add: firstName_def tw)
qed

lemma entryFiles_dom:
  assumes "validName (fst e)"
  shows "dom (entryFiles H basePath e) \<subseteq> {p. firstName basePath p = fst e}"
proof
  fix p assume p: "p \<in> dom (entryFiles H basePath e)"
  obtain name n where e: "e = (name, n)" by (cases e)
  have nm: "name \<noteq> []" "CHR ''/'' \<notin> set name" using assms e by (simp_all add: validName_def)
  have rel: "relativePath basePath name \<noteq> []" using nm by (simp add: relativePath_def)
  have "p = relativePath basePath name \<or> (\<exists>s. p = relativePath basePath name @ CHR ''/'' # s)"
  proof (cases n)
    case (File r content)
    then show ?thesis using p e by (auto simp: entryFiles_def split: if_splits)
  next
    case (Dir r sub)
    then have "p \<in> fst ` set (getDirectoryFiles H n (relativePath basePath name))"
      using p e by (simp add: entryFiles_def dom_map_of_conv_image_fst)
    then show ?thesis using keys_below(1)[OF rel] by blast
  next
    case Special
    then show ?thesis using p e by (simp add: entryFiles_def)
  qed
  then show "p \<in> {p. firstName basePath p = fst e}"
    using firstName_entry[OF nm(2)] e by simp
qed

lemma scanEntries_map_of:
  assumes "\<forall>e \<in> set es. \<forall>r content. snd e = File r content \<longrightarrow> r"
  shows "map_of (scanEntries H es basePath files)
          = foldl (++) (map_of files) (map (entryFiles H basePath) es)"
  using assms
proof (induction es arbitrary: files)
  case Nil
  then show ?case by simp
next
  case (Cons e es)
  obtain name n where e: "e = (name, n)" by (cases e)
  have "\<forall>e \<in> set es. \<forall>r content. snd e = File r content \<longrightarrow> r"
    using Cons.prems by auto
  then have IH: "\<And>files. map_of (scanEntries H es basePath files)
          = foldl (++) (map_of files) (map (entryFiles H basePath) es)"
    by (rule Cons.IH)
  show ?case
  proof (cases n)
    case (File r content)
    then have r: r using Cons.prems e by simp
    have "map_of (AList.update (relativePath basePath name) (hashHex H content) files)
        = map_of files ++ entryFiles H basePath e"
      by (simp add: e File entryFiles_def update_conv')
    then show ?thesis using r by (simp add: e File IH)
  next
    case (Dir r sub)
    have "map_of (setAll (getDirectoryFiles H (Dir r sub) (relativePath basePath name)) files)
        = map_of files ++ entryFiles H basePath e"
      by (simp add: e Dir entryFiles_def setAll_map_of map_of_rev_distinct files_distinct)
    then show ?thesis by (simp add: e Dir IH)
  next
    case Special
    have "map_of files ++ entryFiles H basePath e = map_of files"
      by (simp add: e Special entryFiles_def)
    then show ?thesis by (simp add: e Special IH)
  qed
qed

lemma foldl_entryFiles:
  assumes "distinct (map fst es)"
    and "\<forall>e \<in> set es. dom (entryFiles H basePath e) \<subseteq> {p. firstName basePath p = fst e}"
  shows "foldl (++) m (map (entryFiles H basePath) es) p
          = (case map_of es (firstName basePath p) of
               None \<Rightarrow> m p
             | Some n \<Rightarrow>
                 (case entryFiles H basePath (firstName basePath p, n) p of
                    None \<Rightarrow> m p
                  | Some v \<Rightarrow> Some v))"
  using assms
proof (induction es arbitrary: m)
  case Nil
  then show ?case by simp
next
  case (Cons e es)
  have IH: "foldl (++) (m ++ entryFiles H basePath e) (map (entryFiles H basePath) es) p
          = (case map_of es (firstName basePath p) of
               None \<Rightarrow> (m ++ entryFiles H basePath e) p
             | Some n \<Rightarrow>
                 (case entryFiles H basePath (firstName basePath p, n) p of
                    None \<Rightarrow> (m ++ entryFiles H basePath e) p
                  | Some v \<Rightarrow> Some v))"
    using Cons.prems by (intro Cons.IH) simp_all
  have step: "(m ++ entryFiles H basePath e) p
      = (case entryFiles H basePath e p of None \<Rightarrow> m p | Some v \<Rightarrow> Some v)"
    by (simp add: map_add_def)
  show ?case
  proof (cases "firstName basePath p = fst e")
    case True
    then have none: "map_of es (firstName basePath p) = None"
      using Cons.prems(1) by (simp add: map_of_eq_None_iff)
    have "entryFiles H basePath (fst e, snd e) = entryFiles H basePath e" by simp
    then show ?thesis using IH True step none by simp
  next
    case False
    then have "p \<notin> dom (entryFiles H basePath e)" using Cons.prems(2) by auto
    then have "(m ++ entryFiles H basePath e) p = m p" by (simp add: map_add_def domIff)
    then show ?thesis using IH False by (auto split: option.splits)
  qed
qed

lemma reordered_entryFiles:
  assumes "reordered (snd a) (snd b)" "fst a = fst b"
    and "\<forall>basePath. map_of (getDirectoryFiles H (snd a) basePath)
                   = map_of (getDirectoryFiles H (snd b) basePath)"
  shows "entryFiles H basePath a = entryFiles H basePath b"
  using assms by (cases rule: reordered.cases) (auto simp: entryFiles_def)

lemma reordered_readable:
  assumes "reordered n n'" "n' = File r content"
  shows "n = File r content"
  using assms by (cases rule: reordered.cases) auto

lemma reordered_map_of:
  assumes "reordered t t'" "wellNamed t" "filesReadable t"
  shows "map_of (getDirectoryFiles H t basePath) = map_of (getDirectoryFiles H t' basePath)"
  using assms
proof (induction arbitrary: basePath rule: reordered.induct)
  case (reordered_File r content)
  then show ?case by simp
next
  case reordered_Special
  then show ?case by simp
next
  case (reordered_Dir es es' es'' r)
  show ?case
  proof (cases r)
    case False
    then show ?thesis by simp
  next
    case True
    have rel: "list_all2 (\<lambda>a b. fst a = fst b \<and> reordered (snd a) (snd b) \<and>
        (\<forall>basePath. map_of (getDirectoryFiles H (snd a) basePath)
                   = map_of (getDirectoryFiles H (snd b) basePath))) es es'"
      using reordered_Dir.IH reordered_Dir.prems True
      by (auto simp: list_all2_conv_all_nth)
    have names: "map fst es' = map fst es"
      using rel by (induction rule: list_all2_induct) auto
    have contrib: "map (entryFiles H basePath) es = map (entryFiles H basePath) es'"
      using rel by (induction rule: list_all2_induct) (auto intro: reordered_entryFiles)
    have set'': "set es'' = set es'" using reordered_Dir.hyps by (metis mset_eq_setD)
    have d: "distinct (map fst es)" using reordered_Dir.prems(1) by simp
    then have d': "distinct (map fst es')" using names by simp
    have "mset (map fst es'') = mset (map fst es')" using reordered_Dir.hyps by (metis mset_map)
    then have d'': "distinct (map fst es'')" using d' by (metis mset_eq_imp_distinct_iff)
    have valid': "\<forall>e \<in> set es'. validName (fst e)"
    proof
      fix e assume "e \<in> set es'"
      then have "fst e \<in> set (map fst es)" using names by (metis image_eqI set_map)
      then show "validName (fst e)" using reordered_Dir.prems(1) by auto
    qed
    have dom': "\<forall>e \<in> set es'. dom (entryFiles H basePath e) \<subseteq> {p. firstName basePath p = fst e}"
      using valid' entryFiles_dom by blast
    have read: "\<forall>e \<in> set es. \<forall>r content. snd e = File r content \<longrightarrow> r"
      using reordered_Dir.prems(2) True by fastforce
    have read': "\<forall>e \<in> set es'. \<forall>r content. snd e = File r content \<longrightarrow> r"
    proof (intro ballI allI impI)
      fix e r content assume e: "e \<in> set es'" "snd e = File r content"
      then obtain i where i: "i < length es'" "es' ! i = e" by (metis in_set_conv_nth)
      then have "reordered (snd (es ! i)) (snd e)" "i < length es"
        using rel by (auto simp: list_all2_conv_all_nth)
      then have "snd (es ! i) = File r content" "es ! i \<in> set es"
        using e(2) reordered_readable by auto
      then show r using read by blast
    qed
    have mo: "map_of es'' = map_of es'"
      using map_of_inject_set[OF d'' d'] set'' by simp
    have "map_of (scanEntries H es'' basePath []) p = map_of (scanEntries H es basePath []) p" for p
    proof -
      have "map_of (scanEntries H es'' basePath []) p
          = foldl (++) Map.empty (map (entryFiles H basePath) es'') p"
        using scanEntries_map_of[of es'' H basePath "[]"] read' set'' by simp
      also have "\<dots> = foldl (++) Map.empty (map (entryFiles H basePath) es') p"
        using foldl_entryFiles[OF d'', of H basePath Map.empty p]
          foldl_entryFiles[OF d', of H basePath Map.empty p] dom' set'' mo by simp
      also have "\<dots> = map_of (scanEntries H es basePath []) p"
        using scanEntries_map_of[of es H basePath "[]"] read contrib by simp
      finally show ?thesis .
    qed
    then show ?thesis using True by (simp add: fun_eq_iff)
  qed
qed

lemma mset_insertBy: "mset (insertBy cmp x xs) = add_mset x (mset xs)"
  by (induction xs) auto

lemma mset_sortBy: "mset (sortBy cmp xs) = mset xs"
  unfolding sortBy_def by (induction xs) (auto simp: mset_insertBy)

lemma set_insertBy: "set (insertBy cmp x xs) = insert x (set xs)"
  by (induction xs) auto

lemma sorted_insertBy:
  assumes tot: "\<forall>a \<in> S. \<forall>b \<in> S. cmp a b \<le> 0 \<or> cmp b a \<le> 0"
    and trans: "\<forall>a \<in> S. \<forall>b \<in> S. \<forall>c \<in> S. cmp a b \<le> 0 \<and> cmp b c \<le> 0 \<longrightarrow> cmp a c \<le> (0::int)"
    and "x \<in> S" "set xs \<subseteq> S" "sorted_wrt (\<lambda>a b. cmp a b \<le> 0) xs"
  shows "sorted_wrt (\<lambda>a b. cmp a b \<le> 0) (insertBy cmp x xs)"
  using assms(3-)
proof (induction xs)
  case Nil
  then show ?case by simp
next
  case (Cons y ys)
  show ?case
  proof (cases "cmp x y \<le> 0")
    case True
    have "cmp x z \<le> 0" if "z \<in> set ys" for z
    proof -
      have "cmp y z \<le> 0" using Cons.prems(3) that by simp
      moreover have "x \<in> S" "y \<in> S" "z \<in> S" using Cons.prems(1,2) that by auto
      ultimately show ?thesis using trans True by blast
    qed
    then show ?thesis using True Cons.prems(3) by auto
  next
    case False
    moreover have "x \<in> S" "y \<in> S" using Cons.prems(1,2) by auto
    ultimately have "cmp y x \<le> 0" using tot by blast
    moreover have "sorted_wrt (\<lambda>a b. cmp a b \<le> 0) (insertBy cmp x ys)"
      using Cons by simp
    ultimately show ?thesis using False Cons.prems(3) by (auto simp: set_insertBy)
  qed
qed

lemma sorted_sortBy:
  assumes tot: "\<forall>a \<in> S. \<forall>b \<in> S. cmp a b \<le> 0 \<or> cmp b a \<le> 0"
    and trans: "\<forall>a \<in> S. \<forall>b \<in> S. \<forall>c \<in> S. cmp a b \<le> 0 \<and> cmp b c \<le> 0 \<longrightarrow> cmp a c \<le> (0::int)"
    and "set xs \<subseteq> S"
  shows "sorted_wrt (\<lambda>a b. cmp a b \<le> 0) (sortBy cmp xs)"
  using assms(3)
proof (induction xs)
  case Nil
  then show ?case by (simp add: sortBy_def)
next
  case (Cons x xs)
  have "set (sortBy cmp xs) = set xs"
    using mset_sortBy[of cmp xs] by (rule mset_eq_setD)
  then have "set (sortBy cmp xs) \<subseteq> S" using Cons.prems by simp
  moreover have "sorted_wrt (\<lambda>a b. cmp a b \<le> 0) (sortBy cmp xs)" using Cons by simp
  ultimately have "sorted_wrt (\<lambda>a b. cmp a b \<le> 0) (insertBy cmp x (sortBy cmp xs))"
    using sorted_insertBy[OF tot trans] Cons.prems by simp
  then show ?case by (simp add: sortBy_def)
qed

lemma sorted_wrt_unique:
  assumes "sorted_wrt R xs" "sorted_wrt R ys" "mset xs = mset ys"
    and anti: "\<forall>a \<in> set xs. \<forall>b \<in> set xs. R a b \<and> R b a \<longrightarrow> a = b"
  shows "xs = ys"
  using assms
proof (induction xs arbitrary: ys)
  case Nil
  then show ?case by simp
next
  case (Cons x xs)
  then obtain y ys' where ys: "ys = y # ys'" by (cases ys) auto
  have sets: "set (x # xs) = set (y # ys')" using Cons.prems(3) ys mset_eq_setD by blast
  have "x = y"
  proof (rule ccontr)
    assume ne: "x \<noteq> y"
    then have "x \<in> set ys'" "y \<in> set xs" using sets by auto
    then have "R y x" "R x y" using Cons.prems(1,2) ys by auto
    moreover have "x \<in> set (x # xs)" "y \<in> set (x # xs)" using sets by auto
    ultimately show False using Cons.prems(4) ne by blast
  qed
  moreover have "xs = ys'"
  proof (rule Cons.IH)
    show "sorted_wrt R xs" using Cons.prems(1) by simp
    show "sorted_wrt R ys'" using Cons.prems(2) ys by simp
    show "mset xs = mset ys'" using Cons.prems(3) ys \<open>x = y\<close> by simp
    show "\<forall>a\<in>set xs. \<forall>b\<in>set xs. R a b \<and> R b a \<longrightarrow> a = b" using Cons.prems(4) by simp
  qed
  ultimately show ?case using ys by simp
qed

lemma sortBy_files_unique:
  assumes ord: "totalOrderOn (fst ` set xs) lc"
    and d: "distinct (map fst xs)" "distinct (map fst ys)"
    and m: "map_of xs = map_of ys"
  shows "sortBy (\<lambda>a b. lc (fst a) (fst b)) xs = sortBy (\<lambda>a b. lc (fst a) (fst b)) ys"
proof -
  let ?cmp = "\<lambda>a b. lc (fst a) (fst b)"
  have s: "set xs = set ys" using map_of_inject_set[OF d] m by simp
  have dx: "distinct xs" "distinct ys" using d by (simp_all add: distinct_map)
  have ms: "mset xs = mset ys" using s dx by (simp add: set_eq_iff_mset_eq_distinct)
  have A: "lc a b \<le> 0 \<or> lc b a \<le> 0" if "a \<in> fst ` set xs" "b \<in> fst ` set xs" for a b
    using ord that unfolding totalOrderOn_def by blast
  have tot: "\<forall>a \<in> set xs. \<forall>b \<in> set xs. ?cmp a b \<le> 0 \<or> ?cmp b a \<le> 0"
  proof (intro ballI)
    fix a b assume "a \<in> set xs" "b \<in> set xs"
    then show "?cmp a b \<le> 0 \<or> ?cmp b a \<le> 0" using A[of "fst a" "fst b"] by simp
  qed
  have T: "lc a c \<le> 0" if "a \<in> fst ` set xs" "b \<in> fst ` set xs" "c \<in> fst ` set xs"
      "lc a b \<le> 0" "lc b c \<le> 0" for a b c
    using ord that unfolding totalOrderOn_def by blast
  have trans: "\<forall>a \<in> set xs. \<forall>b \<in> set xs. \<forall>c \<in> set xs.
      ?cmp a b \<le> 0 \<and> ?cmp b c \<le> 0 \<longrightarrow> ?cmp a c \<le> 0"
  proof (intro ballI impI)
    fix a b c assume "a \<in> set xs" "b \<in> set xs" "c \<in> set xs"
      "?cmp a b \<le> 0 \<and> ?cmp b c \<le> 0"
    then show "?cmp a c \<le> 0" using T[of "fst a" "fst b" "fst c"] by simp
  qed
  have anti: "\<forall>a \<in> set xs. \<forall>b \<in> set xs. ?cmp a b \<le> 0 \<and> ?cmp b a \<le> 0 \<longrightarrow> a = b"
  proof (intro ballI impI)
    fix a b assume ab: "a \<in> set xs" "b \<in> set xs" "?cmp a b \<le> 0 \<and> ?cmp b a \<le> 0"
    moreover have "fst a \<in> fst ` set xs" "fst b \<in> fst ` set xs" using ab(1,2) by simp_all
    ultimately have "fst a = fst b" using ord unfolding totalOrderOn_def by blast
    moreover have "(fst a, snd a) \<in> set xs" "(fst b, snd b) \<in> set xs" using ab(1,2) by simp_all
    ultimately have "snd a = snd b" using eq_key_imp_eq_value[OF d(1)] by metis
    then show "a = b" using \<open>fst a = fst b\<close> by (simp add: prod_eq_iff)
  qed
  have "sorted_wrt (\<lambda>a b. ?cmp a b \<le> 0) (sortBy ?cmp xs)"
    using sorted_sortBy[OF tot trans] by simp
  moreover have "sorted_wrt (\<lambda>a b. ?cmp a b \<le> 0) (sortBy ?cmp ys)"
    using sorted_sortBy[OF tot trans] s by simp
  moreover have "mset (sortBy ?cmp xs) = mset (sortBy ?cmp ys)"
    using ms by (simp add: mset_sortBy)
  moreover have "set (sortBy ?cmp xs) = set xs"
    using mset_sortBy[of ?cmp xs] by (rule mset_eq_setD)
  then have "\<forall>a \<in> set (sortBy ?cmp xs). \<forall>b \<in> set (sortBy ?cmp xs).
      (?cmp a b \<le> 0) \<and> (?cmp b a \<le> 0) \<longrightarrow> a = b"
    using anti by simp
  ultimately show ?thesis by (rule sorted_wrt_unique)
qed

text \<open>
  C3, as amended. Let \<open>D\<close> be a directory whose names are those of a file system
  (non-empty, without separator, distinct in each directory) and in which every
  regular file that the walk reaches can be read, and let \<open>D'\<close> be \<open>D\<close> with the
  entries of every directory enumerated in another order. If \<open>localeCompare\<close> is a
  total order on the relative paths of the files of \<open>D\<close>, the fingerprints of \<open>D\<close>
  and \<open>D'\<close> are equal: the pairs of path and content hash are sorted by path with
  \<open>localeCompare\<close>, joined as \<^verbatim>\<open>path:hash\<close> with \<^verbatim>\<open>|\<close>, and hashed.
\<close>

theorem hashDirectory_enumeration_order:
  assumes "nodeAt tree p = Some D" "nodeAt tree' p = Some D'"
    and "reordered D D'" "wellNamed D" "filesReadable D"
    and "totalOrderOn (fst ` set (filesAt H tree p)) lc"
  shows "hashDirectory H lc tree p = hashDirectory H lc tree' p
    \<and> sorted_wrt (\<lambda>a b. lc (fst a) (fst b) \<le> 0)
         (sortBy (\<lambda>a b. lc (fst a) (fst b)) (filesAt H tree p))
    \<and> hashDirectory H lc tree p =
        (if filesAt H tree p = [] then ''empty''
         else hashHex H (joinWith ''|'' (map (\<lambda>(p, h). p @ '':'' @ h)
                (sortBy (\<lambda>a b. lc (fst a) (fst b)) (filesAt H tree p)))))"
proof -
  let ?xs = "filesAt H tree p" and ?ys = "filesAt H tree' p"
  have xs: "?xs = getDirectoryFiles H D []" and ys: "?ys = getDirectoryFiles H D' []"
    using assms(1,2) by (simp_all add: filesAt_def)
  have m: "map_of ?xs = map_of ?ys"
    using reordered_map_of[OF assms(3,4,5)] xs ys by simp
  have d: "distinct (map fst ?xs)" "distinct (map fst ?ys)"
    using xs ys files_distinct(1) by simp_all
  have srt: "sortBy (\<lambda>a b. lc (fst a) (fst b)) ?xs = sortBy (\<lambda>a b. lc (fst a) (fst b)) ?ys"
    using sortBy_files_unique[OF assms(6) d m] .
  have "set ?xs = set ?ys" using map_of_inject_set[OF d] m by simp
  then have e: "?xs = [] \<longleftrightarrow> ?ys = []" using set_empty by metis
  have 1: "hashDirectory H lc tree p = hashDirectory H lc tree' p"
    using srt e by (simp add: hashDirectory_def hashFiles_def combine_def)
  have A: "lc a b \<le> 0 \<or> lc b a \<le> 0" if "a \<in> fst ` set ?xs" "b \<in> fst ` set ?xs" for a b
    using assms(6) that unfolding totalOrderOn_def by blast
  have tot: "\<forall>a \<in> set ?xs. \<forall>b \<in> set ?xs. lc (fst a) (fst b) \<le> 0 \<or> lc (fst b) (fst a) \<le> 0"
  proof (intro ballI)
    fix a b assume "a \<in> set ?xs" "b \<in> set ?xs"
    then show "lc (fst a) (fst b) \<le> 0 \<or> lc (fst b) (fst a) \<le> 0"
      using A[of "fst a" "fst b"] by simp
  qed
  have T: "lc a c \<le> 0" if "a \<in> fst ` set ?xs" "b \<in> fst ` set ?xs" "c \<in> fst ` set ?xs"
      "lc a b \<le> 0" "lc b c \<le> 0" for a b c
    using assms(6) that unfolding totalOrderOn_def by blast
  have trans: "\<forall>a \<in> set ?xs. \<forall>b \<in> set ?xs. \<forall>c \<in> set ?xs.
      lc (fst a) (fst b) \<le> 0 \<and> lc (fst b) (fst c) \<le> 0 \<longrightarrow> lc (fst a) (fst c) \<le> 0"
  proof (intro ballI impI)
    fix a b c assume "a \<in> set ?xs" "b \<in> set ?xs" "c \<in> set ?xs"
      "lc (fst a) (fst b) \<le> 0 \<and> lc (fst b) (fst c) \<le> 0"
    then show "lc (fst a) (fst c) \<le> 0" using T[of "fst a" "fst b" "fst c"] by simp
  qed
  have 2: "sorted_wrt (\<lambda>a b. lc (fst a) (fst b) \<le> 0) (sortBy (\<lambda>a b. lc (fst a) (fst b)) ?xs)"
    using sorted_sortBy[OF tot trans] by simp
  have 3: "hashDirectory H lc tree p =
        (if ?xs = [] then ''empty''
         else hashHex H (joinWith ''|'' (map (\<lambda>(p, h). p @ '':'' @ h)
                (sortBy (\<lambda>a b. lc (fst a) (fst b)) ?xs))))"
    by (simp add: hashDirectory_def hashFiles_def combine_def)
  show ?thesis using 1 2 3 by blast
qed

theorem hashDirectory_enumeration_order_witness:
  "reordered orderTree orderTree'
   \<and> filesAt lengthHash orderTree '''' = [(''a.md'', ''1''), (''d/c'', ''1''), (''d/b'', ''2'')]
   \<and> filesAt lengthHash orderTree' '''' = [(''d/b'', ''2''), (''d/c'', ''1''), (''a.md'', ''1'')]
   \<and> hashDirectory lengthHash byteCompare orderTree '''' = hashDirectory lengthHash byteCompare orderTree' ''''"
proof -
  have n: "nodeAt orderTree '''' = Some orderTree" "nodeAt orderTree' '''' = Some orderTree'"
    by (simp_all add: nodeAt_def components_def parts_def resolveDots_def)
  have sub: "reordered (Dir True [(''c'', File True ''1''), (''b'', File True ''22'')])
                       (Dir True [(''b'', File True ''22''), (''c'', File True ''1'')])"
    by (rule reordered_Dir[where es' = "[(''c'', File True ''1''), (''b'', File True ''22'')]"])
       (simp_all add: reordered_File)
  have r: "reordered orderTree orderTree'"
    unfolding orderTree_def orderTree'_def
    by (rule reordered_Dir[where es' = "[(''a.md'', File True ''x''),
          (''d'', Dir True [(''b'', File True ''22''), (''c'', File True ''1'')])]"])
       (simp_all add: reordered_File sub)
  have w: "wellNamed orderTree" "filesReadable orderTree"
    by (simp_all add: orderTree_def validName_def)
  have f: "filesAt lengthHash orderTree '''' = [(''a.md'', ''1''), (''d/c'', ''1''), (''d/b'', ''2'')]"
    by (simp only: filesAt_def n option.case)
       (simp add: orderTree_def setAll_def relativePath_def hashHex_def lengthHash_def hexDigit_def)
  have f': "filesAt lengthHash orderTree' '''' = [(''d/b'', ''2''), (''d/c'', ''1''), (''a.md'', ''1'')]"
    by (simp only: filesAt_def n option.case)
       (simp add: orderTree'_def setAll_def relativePath_def hashHex_def lengthHash_def hexDigit_def)
  have t: "totalOrderOn (fst ` set (filesAt lengthHash orderTree '''')) byteCompare"
    by (simp add: f totalOrderOn_def)
  show ?thesis
    using hashDirectory_enumeration_order[OF n r w t] r f f' by simp
qed

text \<open>
  C3 as stated fails where a regular file cannot be read: reading it raises inside the
  loop, the \<^verbatim>\<open>catch\<close> around the loop ends the walk of that directory, and the
  entries enumerated after the file are left out. With the readable file first the
  fingerprint is a digest, with the unreadable file first it is the sentinel.
\<close>

theorem hashDirectory_order_counterexample:
  "reordered lockedTree lockedTree' \<and> wellNamed lockedTree
   \<and> (\<forall>H lc. hashDirectory H lc lockedTree '''' \<noteq> hashDirectory H lc lockedTree' '''')"
proof -
  have n: "nodeAt lockedTree '''' = Some lockedTree" "nodeAt lockedTree' '''' = Some lockedTree'"
    by (simp_all add: nodeAt_def components_def parts_def resolveDots_def)
  have r: "reordered lockedTree lockedTree'"
    unfolding lockedTree_def lockedTree'_def
    by (rule reordered_Dir[where es' = "[(''a'', File True ''x''), (''b'', File False ''y'')]"])
       (simp_all add: reordered_File)
  have w: "wellNamed lockedTree" by (simp add: lockedTree_def validName_def)
  have "hashDirectory H lc lockedTree '''' \<noteq> hashDirectory H lc lockedTree' ''''" for H lc
  proof -
    have "filesAt H lockedTree '''' = [(''a'', hashHex H ''x'')]"
      by (simp only: filesAt_def n option.case) (simp add: lockedTree_def relativePath_def)
    then have "hashDirectory H lc lockedTree '''' \<noteq> ''empty''"
      by (simp add: hashDirectory_def hashFiles_empty_iff)
    moreover have "filesAt H lockedTree' '''' = []"
      by (simp only: filesAt_def n option.case) (simp add: lockedTree'_def)
    then have "hashDirectory H lc lockedTree' '''' = ''empty''"
      by (simp add: hashDirectory_def hashFiles_def)
    ultimately show ?thesis by simp
  qed
  then show ?thesis using r w by blast
qed

section \<open>Properties of the URL matchers\<close>

text \<open>
  C8. \<open>parseGitUrl\<close> on \<^verbatim>\<open>https://github.com/owner/repo\<close> returns host
  \<^verbatim>\<open>github.com\<close>, owner \<^verbatim>\<open>owner\<close>, repo \<^verbatim>\<open>repo\<close> and clone URL
  \<^verbatim>\<open>https://github.com/owner/repo.git\<close>, with no branch and no subdirectory; on
  \<^verbatim>\<open>not-a-url\<close> and on the empty string no matcher of the chain matches and the
  result is null.
\<close>

theorem parseGitUrl_examples:
  "parseGitUrl ''https://github.com/owner/repo''
     = Some \<lparr>host = ''github.com'', owner = ''owner'', repo = ''repo'', branch = None,
              subdir = None, cloneUrl = ''https://github.com/owner/repo.git''\<rparr>
   \<and> parseGitUrl ''not-a-url'' = None
   \<and> parseGitUrl '''' = None
   \<and> parseGitHubUrl ''not-a-url'' = None \<and> parseGitLabUrl ''not-a-url'' = None
   \<and> parseBitbucketUrl ''not-a-url'' = None \<and> parseGenericGitUrl ''not-a-url'' = None
   \<and> parseGitHubUrl '''' = None \<and> parseGitLabUrl '''' = None
   \<and> parseBitbucketUrl '''' = None \<and> parseGenericGitUrl '''' = None"
  by code_simp

section \<open>Paths\<close>

lemma splitOn_nonempty: "splitOn sep s \<noteq> []"
  by (induction s) (auto split: list.splits)

lemma splitOn_append: "splitOn sep (a @ sep # b) = splitOn sep a @ splitOn sep b"
  by (induction a) (auto split: list.splits simp: splitOn_nonempty)

lemma splitOn_plain: "sep \<notin> set s \<Longrightarrow> splitOn sep s = [s]"
  by (induction s) (auto split: list.splits)

lemma splitOn_suffix:
  "sep \<notin> set s \<Longrightarrow> splitOn sep (a @ s) = butlast (splitOn sep a) @ [last (splitOn sep a) @ s]"
proof (induction a)
  case Nil
  then show ?case by (simp add: splitOn_plain)
next
  case (Cons c a)
  then show ?case
    by (cases "splitOn sep a") (auto simp: splitOn_nonempty split: list.splits)
qed

lemma parts_append: "parts (a @ CHR ''/'' # b) = parts a @ parts b"
  by (simp add: parts_def splitOn_append)

lemma parts_name: "validName b \<Longrightarrow> b \<noteq> ''.'' \<Longrightarrow> parts b = [b]"
  by (simp add: parts_def validName_def splitOn_plain)

lemma resolveDots_snoc: "y \<noteq> ''..'' \<Longrightarrow> resolveDots (xs @ [y]) = resolveDots xs @ [y]"
  by (simp add: resolveDots_def)


lemma components_child:
  assumes "validName b" "b \<noteq> ''.''" "b \<noteq> ''..''"
  shows "components (a @ CHR ''/'' # b) = components a @ [b]"
  using assms by (simp add: components_def parts_append parts_name resolveDots_snoc)


lemma components_suffix_nonempty:
  assumes "CHR ''/'' \<notin> set s" "s \<noteq> []" "last s \<noteq> CHR ''.''"
  shows "components (a @ s) \<noteq> []"
proof -
  let ?w = "last (splitOn CHR ''/'' a) @ s"
  have w: "?w \<noteq> []" "?w \<noteq> ''.''" "?w \<noteq> ''..''"
    using assms(2,3) by (auto simp: append_eq_Cons_conv dest: arg_cong[where f = last])
  have "parts (a @ s) = parts (concat []) @ filter (\<lambda>c. c \<noteq> [] \<and> c \<noteq> ''.'') (butlast (splitOn CHR ''/'' a)) @ [?w]"
    using w by (simp add: parts_def splitOn_suffix[OF assms(1)] splitOn_plain)
  then obtain xs where "parts (a @ s) = xs @ [?w]" by simp
  then show ?thesis using w(3) by (simp add: components_def resolveDots_snoc)
qed

section \<open>Properties of the file system operations\<close>

lemma putAt_at: "putAt p v n = Some n' \<Longrightarrow> lookup n' p = v"
proof (induction p arbitrary: n n')
  case Nil
  then show ?case by simp
next
  case (Cons c cs)
  then obtain r es where n: "n = Dir r es" by (cases n) auto
  show ?case
  proof (cases "cs = []")
    case True
    then show ?thesis using Cons.prems n
      by (cases v) (auto simp: update_conv' delete_conv')
  next
    case False
    then obtain child child' where c: "map_of es c = Some child" "putAt cs v child = Some child'"
        "n' = Dir r (AList.update c child' es)"
      using Cons.prems n by (auto split: option.splits)
    then show ?thesis using Cons.IH[OF c(2)] by (simp add: update_conv')
  qed
qed

lemma putAt_frame:
  "putAt p v n = Some n' \<Longrightarrow> \<not> prefix p q \<Longrightarrow> \<not> prefix q p \<Longrightarrow> lookup n' q = lookup n q"
proof (induction p arbitrary: n n' q)
  case Nil
  then show ?case by simp
next
  case (Cons c cs)
  then obtain r es where n: "n = Dir r es" by (cases n) auto
  obtain d ds where q: "q = d # ds" using Cons.prems(3) by (cases q) auto
  show ?case
  proof (cases "d = c")
    case False
    then show ?thesis using Cons.prems(1) n q
      by (cases v) (auto simp: update_conv' delete_conv' split: option.splits if_splits)
  next
    case True
    then have par: "\<not> prefix cs ds" "\<not> prefix ds cs" using Cons.prems(2,3) q by auto
    then have "cs \<noteq> []" by auto
    then obtain child child' where c: "map_of es c = Some child" "putAt cs v child = Some child'"
        "n' = Dir r (AList.update c child' es)"
      using Cons.prems(1) n by (auto split: option.splits)
    then show ?thesis using Cons.IH[OF c(2) par] True q n by (simp add: update_conv')
  qed
qed

lemma putAt_defined:
  "p \<noteq> [] \<Longrightarrow> lookup n (butlast p) = Some (Dir r es) \<Longrightarrow> \<exists>n'. putAt p v n = Some n'"
proof (induction p arbitrary: n)
  case Nil
  then show ?case by simp
next
  case (Cons c cs)
  show ?case
  proof (cases "cs = []")
    case True
    then show ?thesis using Cons.prems by simp
  next
    case False
    then obtain r' es' child where n: "n = Dir r' es'" "map_of es' c = Some child"
        "lookup child (butlast cs) = Some (Dir r es)"
      using Cons.prems by (cases n) (auto split: option.splits)
    then show ?thesis using Cons.IH[OF False n(3)] False by auto
  qed
qed

lemma lookup_parent:
  "lookup n p = Some x \<Longrightarrow> p \<noteq> [] \<Longrightarrow> \<exists>r es. lookup n (butlast p) = Some (Dir r es)"
proof (induction p arbitrary: n)
  case Nil
  then show ?case by simp
next
  case (Cons c cs)
  then obtain r es where n: "n = Dir r es" by (cases n) auto
  show ?case
  proof (cases "cs = []")
    case True
    then show ?thesis using n by simp
  next
    case False
    then show ?thesis using Cons n by (auto split: option.splits)
  qed
qed

lemma putAt_existing: "lookup n p = Some x \<Longrightarrow> p \<noteq> [] \<Longrightarrow> \<exists>n'. putAt p v n = Some n'"
  using lookup_parent putAt_defined by blast

lemma putAt_None_keeps_missing:
  "putAt p None n = Some n' \<Longrightarrow> lookup n q = None \<Longrightarrow> lookup n' q = None"
proof (induction p arbitrary: n n' q)
  case Nil
  then show ?case by simp
next
  case (Cons c cs)
  then obtain r es where n: "n = Dir r es" by (cases n) auto
  show ?case
  proof (cases q)
    case Nil
    then show ?thesis using Cons.prems by simp
  next
    case (Cons d ds)
    show ?thesis
    proof (cases "cs = []")
      case True
      then show ?thesis using Cons.prems n Cons
        by (auto simp: delete_conv' split: option.splits)
    next
      case False
      then obtain child child' where c: "map_of es c = Some child" "putAt cs None child = Some child'"
          "n' = Dir r (AList.update c child' es)"
        using Cons.prems(1) n by (auto split: option.splits)
      show ?thesis
      proof (cases "d = c")
        case True
        then have "lookup child ds = None" using Cons.prems(2) n Cons c(1) by simp
        then have "lookup child' ds = None" using Cons.IH[OF c(2)] by simp
        then show ?thesis using True Cons c(3) by (simp add: update_conv')
      next
        case False
        then show ?thesis using Cons.prems(2) n Cons c(3) by (simp add: update_conv')
      qed
    qed
  qed
qed

lemma rmrf_gone: "components p \<noteq> [] \<Longrightarrow> nodeAt (rmrf tree p) p = None"
proof (cases "putAt (components p) None tree")
  case None
  assume ne: "components p \<noteq> []"
  have "lookup tree (components p) = None"
  proof (rule ccontr)
    assume "lookup tree (components p) \<noteq> None"
    then obtain x where "lookup tree (components p) = Some x" by auto
    then show False using putAt_existing[OF _ ne, of tree x None] None by simp
  qed
  then show ?thesis using None by (simp add: rmrf_def nodeAt_def)
next
  case (Some tree')
  then show ?thesis using putAt_at[OF Some] by (simp add: rmrf_def nodeAt_def)
qed

lemma rmrf_keeps_missing: "nodeAt tree q = None \<Longrightarrow> nodeAt (rmrf tree p) q = None"
  using putAt_None_keeps_missing[of "components p" tree _ "components q"]
  by (auto simp: rmrf_def nodeAt_def split: option.splits)

lemma rmrf_frame:
  "\<not> prefix (components p) q \<Longrightarrow> \<not> prefix q (components p) \<Longrightarrow> lookup (rmrf tree p) q = lookup tree q"
  using putAt_frame[of "components p" None tree _ q]
  by (auto simp: rmrf_def split: option.splits)

lemma mkdirp_frame:
  "mkdirp p n = Some n' \<Longrightarrow> \<not> prefix p q \<Longrightarrow> \<not> prefix q p \<Longrightarrow> lookup n' q = lookup n q"
proof (induction p arbitrary: n n' q)
  case Nil
  then show ?case by simp
next
  case (Cons c cs)
  then obtain r es where n: "n = Dir r es" by (cases n) auto
  obtain d ds where q: "q = d # ds" using Cons.prems(3) by (cases q) auto
  let ?child = "case map_of es c of None \<Rightarrow> Dir True [] | Some child \<Rightarrow> child"
  obtain child' where c: "mkdirp cs ?child = Some child'" "n' = Dir r (AList.update c child' es)"
    using Cons.prems(1) n by (auto split: option.splits)
  show ?case
  proof (cases "d = c")
    case False
    then show ?thesis using c(2) n q by (simp add: update_conv')
  next
    case True
    then have par: "\<not> prefix cs ds" "\<not> prefix ds cs" using Cons.prems(2,3) q by auto
    then obtain e es' where ds: "ds = e # es'" by (cases ds) auto
    have "lookup child' ds = lookup ?child ds" using Cons.IH[OF c(1) par] .
    then show ?thesis using True q n c(2) ds by (auto simp: update_conv' split: option.splits)
  qed
qed

lemma mkdirp_dir: "mkdirp p n = Some n' \<Longrightarrow> \<exists>r es. lookup n' p = Some (Dir r es)"
proof (induction p arbitrary: n n')
  case Nil
  then show ?case by (cases n) auto
next
  case (Cons c cs)
  then obtain r es where n: "n = Dir r es" by (cases n) auto
  let ?child = "case map_of es c of None \<Rightarrow> Dir True [] | Some child \<Rightarrow> child"
  obtain child' where c: "mkdirp cs ?child = Some child'" "n' = Dir r (AList.update c child' es)"
    using Cons.prems(1) n by (auto split: option.splits)
  then show ?case using Cons.IH[OF c(1)] by (simp add: update_conv')
qed

lemma mkdirp_existing: "lookup n p = Some (Dir r es) \<Longrightarrow> mkdirp p n = Some n"
proof (induction p arbitrary: n)
  case Nil
  then show ?case by simp
next
  case (Cons c cs)
  then obtain r' es' child where n: "n = Dir r' es'" "map_of es' c = Some child"
      "lookup child cs = Some (Dir r es)"
    by (cases n) (auto split: option.splits)
  then show ?case using Cons.IH[OF n(3)] by (simp add: update_triv)
qed


section \<open>Properties of the combinators\<close>

lemma andThen_Ok:
  "andThen m f w = Ok y w' \<longleftrightarrow> (\<exists>x w1. m w = Ok x w1 \<and> f x w1 = Ok y w')"
  by (auto simp: andThen_def split: result.splits)


lemma tryCatch_Ok:
  "tryCatch m h w = Ok y w' \<longleftrightarrow> m w = Ok y w' \<or> (\<exists>e w1. m w = Throw e w1 \<and> h e w1 = Ok y w')"
  by (auto simp: tryCatch_def split: result.splits)

lemma tryCatch_Throw:
  "tryCatch m h w = Throw e' w' \<longleftrightarrow> (\<exists>e w1. m w = Throw e w1 \<and> h e w1 = Throw e' w')"
  by (auto simp: tryCatch_def split: result.splits)

lemma silentI: "(\<And>w. out (worldOf (m w)) = out w) \<Longrightarrow> silent m"
  by (simp add: silent_def)






lemma silent_andThen: "silent m \<Longrightarrow> (\<And>x. silent (f x)) \<Longrightarrow> silent (andThen m f)"
  unfolding silent_def andThen_def
proof
  fix w assume m: "\<forall>w. out (worldOf (m w)) = out w" and f: "\<And>x. \<forall>w. out (worldOf (f x w)) = out w"
  show "out (worldOf (case m w of Ok x w' \<Rightarrow> f x w' | Throw e w' \<Rightarrow> Throw e w')) = out w"
  proof (cases "m w")
    case (Ok x w1)
    then have "out w1 = out w" using m[rule_format, of w] by simp
    then show ?thesis using Ok f[of x, rule_format, of w1] by simp
  next
    case (Throw e w1)
    then show ?thesis using m[rule_format, of w] by simp
  qed
qed


lemma silent_mkdirW: "silent (mkdirW p)"
  by (simp add: silent_def mkdirW_def split: option.splits)


lemma silent_rmFileW: "silent (rmFileW p)"
  by (simp add: silent_def rmFileW_def split: option.splits)

lemma silent_renameW: "silent (renameW p q)"
  by (simp add: silent_def renameW_def split: option.splits)

lemma silent_writeW: "silent (writeW p c)"
  by (simp add: silent_def writeW_def split: option.splits)












section \<open>Synchronising from an empty store\<close>

text \<open>
  C1. The claim: with an empty store \<open>syncToTarget\<close> logs a notice and leaves the
  target as it is. The code tests \<open>directoryExists\<close> of the store, which is true of
  an empty store directory, removes every entry of the target and copies nothing.
  Here the store exists and is empty, the target holds \<^verbatim>\<open>notes.txt\<close>; afterwards
  the target is empty and the line logged is \<^verbatim>\<open>Synced\<close>.
\<close>

theorem syncToTarget_empty_store_clears_target:
  "directoryExists (fs emptyStoreWorld) (SKILLS_STORE demoEnv)
   \<and> nodeAt (fs emptyStoreWorld) (SKILLS_STORE demoEnv) = Some (Dir True [])
   \<and> nodeAt (fs emptyStoreWorld) (t_path cursorTarget) = Some (Dir True [(''notes.txt'', File True ''mine'')])
   \<and> syncToTarget demoEnv cursorTarget emptyStoreWorld
       = Ok () \<lparr>fs = homeWith [] [(''t'', Dir True [])], out = [''  cursor: Synced''],
                 DEFAULT_CONFIG = emptyConfig\<rparr>"
  by code_simp

section \<open>Cleaning up after a failed clone\<close>

text \<open>
  C2. The claim: after a failed remote ingestion or update neither the store path of
  the source nor the temporary clone remains. Here \<^verbatim>\<open>git clone\<close> creates the
  directory and exits with code 128. \<open>updateRemoteSource\<close> raises
  \<^verbatim>\<open>Failed to clone: ...\<close> and the directory is still there: its handler removes
  only the temporary clone. \<open>addRemoteSource\<close>, on the same input, removes both.
\<close>

theorem updateRemoteSource_keeps_partial_clone:
  "nodeAt (fs emptyStoreWorld) (getSkillPath failEnv ''repo'') = None
   \<and> updateRemoteSource failEnv ''repo'' ''https://github.com/owner/repo'' emptyStoreWorld
       = Throw (Exn ''Error'' ''Failed to clone: ShellError: Failed with exit code 128'')
           \<lparr>fs = homeWith [(''repo'', Dir True [])] [(''t'', Dir True [(''notes.txt'', File True ''mine'')])],
            out = [''  repo: Updating from https://github.com/owner/repo...''],
            DEFAULT_CONFIG = emptyConfig\<rparr>
   \<and> directoryExists (homeWith [(''repo'', Dir True [])] [(''t'', Dir True [(''notes.txt'', File True ''mine'')])])
         (getSkillPath failEnv ''repo'')
   \<and> addRemoteSource failEnv ''https://github.com/owner/repo'' None emptyStoreWorld
       = Throw (Exn ''Error'' ''Failed to clone repository: ShellError: Failed with exit code 128'')
           \<lparr>fs = homeWith [] [(''t'', Dir True [(''notes.txt'', File True ''mine'')])],
            out = [''Adding remote source: https://github.com/owner/repo'', ''Skill name: repo'',
                   ''Cloning repository...''],
            DEFAULT_CONFIG = emptyConfig\<rparr>"
  by code_simp

section \<open>Batch operations\<close>




















section \<open>Properties of the registry\<close>

lemma keepsDefault_Ok: "keepsDefault m \<Longrightarrow> m w = Ok x w' \<Longrightarrow> DEFAULT_CONFIG w' = DEFAULT_CONFIG w"
  unfolding keepsDefault_def by (metis worldOf.simps(1))

lemma keepsDefault_Throw: "keepsDefault m \<Longrightarrow> m w = Throw e w' \<Longrightarrow> DEFAULT_CONFIG w' = DEFAULT_CONFIG w"
  unfolding keepsDefault_def by (metis worldOf.simps(2))

lemma keepsDefault_ret: "keepsDefault (ret x)"
  by (simp add: keepsDefault_def ret_def)

lemma keepsDefault_throw: "keepsDefault (throw e)"
  by (simp add: keepsDefault_def throw_def)

lemma keepsDefault_log: "keepsDefault (log l)"
  by (simp add: keepsDefault_def log_def)

lemma keepsDefault_andThen:
  assumes "keepsDefault m" "\<And>x. keepsDefault (f x)"
  shows "keepsDefault (andThen m f)"
  unfolding keepsDefault_def
proof
  fix w
  show "DEFAULT_CONFIG (worldOf (andThen m f w)) = DEFAULT_CONFIG w"
  proof (cases "m w")
    case (Ok x w1)
    then have "DEFAULT_CONFIG w1 = DEFAULT_CONFIG w" using keepsDefault_Ok[OF assms(1)] by blast
    moreover have "DEFAULT_CONFIG (worldOf (f x w1)) = DEFAULT_CONFIG w1"
      using assms(2)[of x] by (simp add: keepsDefault_def)
    ultimately show ?thesis using Ok by (simp add: andThen_def)
  next
    case (Throw e w1)
    then show ?thesis using keepsDefault_Throw[OF assms(1) Throw] by (simp add: andThen_def)
  qed
qed

lemma keepsDefault_tryCatch:
  assumes "keepsDefault m" "\<And>e. keepsDefault (h e)"
  shows "keepsDefault (tryCatch m h)"
  unfolding keepsDefault_def
proof
  fix w
  show "DEFAULT_CONFIG (worldOf (tryCatch m h w)) = DEFAULT_CONFIG w"
  proof (cases "m w")
    case (Ok x w1)
    then show ?thesis using keepsDefault_Ok[OF assms(1) Ok] by (simp add: tryCatch_def)
  next
    case (Throw e w1)
    then have "DEFAULT_CONFIG w1 = DEFAULT_CONFIG w" using keepsDefault_Throw[OF assms(1)] by blast
    moreover have "DEFAULT_CONFIG (worldOf (h e w1)) = DEFAULT_CONFIG w1"
      using assms(2)[of e] by (simp add: keepsDefault_def)
    ultimately show ?thesis using Throw by (simp add: tryCatch_def)
  qed
qed

lemma keepsDefault_if:
  "keepsDefault a \<Longrightarrow> keepsDefault b \<Longrightarrow> keepsDefault (\<lambda>w. if c w then a w else b w)"
  by (simp add: keepsDefault_def)

lemma keepsDefault_mkdirW: "keepsDefault (mkdirW p)"
  by (simp add: keepsDefault_def mkdirW_def split: option.splits)

lemma keepsDefault_rmFileW: "keepsDefault (rmFileW p)"
  by (simp add: keepsDefault_def rmFileW_def split: option.splits)

lemma keepsDefault_renameW: "keepsDefault (renameW p q)"
  by (simp add: keepsDefault_def renameW_def split: option.splits)

lemma keepsDefault_writeW: "keepsDefault (writeW p c)"
  by (simp add: keepsDefault_def writeW_def split: option.splits)

lemma keepsDefault_ensureDirectories: "keepsDefault (ensureDirectories E)"
  unfolding ensureDirectories_def by (intro keepsDefault_andThen keepsDefault_mkdirW)

lemma keepsDefault_writeConfig: "keepsDefault (writeConfig E c)"
  unfolding writeConfig_def
  by (intro keepsDefault_andThen keepsDefault_ensureDirectories keepsDefault_writeW)

lemma silent_ensureDirectories: "silent (ensureDirectories E)"
  unfolding ensureDirectories_def by (intro silent_andThen silent_mkdirW)

lemma silent_writeConfig: "silent (writeConfig E c)"
  unfolding writeConfig_def
  by (intro silent_andThen silent_ensureDirectories silent_writeW)

text \<open>The three paths of the tool, as components.\<close>

lemma components_ROOT: "components (SKILLS_ROOT E) = components (homedir E) @ [''.skills'']"
  using components_child[of "''.skills''" "homedir E"] by (simp add: SKILLS_ROOT_def validName_def)

lemma components_STORE: "components (SKILLS_STORE E) = components (SKILLS_ROOT E) @ [''store'']"
  using components_child[of "''store''" "SKILLS_ROOT E"] by (simp add: SKILLS_STORE_def validName_def)

lemma components_CONFIG: "components (CONFIG_PATH E) = components (SKILLS_ROOT E) @ [''config.json'']"
  using components_child[of "''config.json''" "SKILLS_ROOT E"]
  by (simp add: CONFIG_PATH_def validName_def)

lemma mkdirp_ancestor:
  "mkdirp p n = Some n' \<Longrightarrow> prefix q p \<Longrightarrow> \<exists>r es. lookup n' q = Some (Dir r es)"
proof (induction p arbitrary: n n' q)
  case Nil
  then show ?case by (cases n) auto
next
  case (Cons c cs)
  then obtain r es where n: "n = Dir r es" by (cases n) auto
  let ?child = "case map_of es c of None \<Rightarrow> Dir True [] | Some child \<Rightarrow> child"
  obtain child' where c: "mkdirp cs ?child = Some child'" "n' = Dir r (AList.update c child' es)"
    using Cons.prems(1) n by (auto split: option.splits)
  show ?case
  proof (cases q)
    case Nil
    then show ?thesis using c(2) by simp
  next
    case (Cons d ds)
    then have "d = c" "prefix ds cs" using Cons.prems(2) by auto
    then show ?thesis using Cons.IH[OF c(1), of ds] c(2) Cons by (simp add: update_conv')
  qed
qed

lemma mkdirp_below:
  "mkdirp p n = Some n' \<Longrightarrow> lookup n' (p @ x # xs) = lookup n (p @ x # xs)"
proof (induction p arbitrary: n n')
  case Nil
  then show ?case by (cases n) auto
next
  case (Cons c cs)
  then obtain r es where n: "n = Dir r es" by (cases n) auto
  let ?child = "case map_of es c of None \<Rightarrow> Dir True [] | Some child \<Rightarrow> child"
  obtain child' where c: "mkdirp cs ?child = Some child'" "n' = Dir r (AList.update c child' es)"
    using Cons.prems(1) n by (auto split: option.splits)
  have IH: "lookup child' (cs @ x # xs) = lookup ?child (cs @ x # xs)" using Cons.IH[OF c(1)] .
  show ?case
  proof (cases "map_of es c")
    case None
    have "lookup (Dir True []) (cs @ x # xs) = None" by (cases cs) auto
    then show ?thesis using IH None n c(2) by (simp add: update_conv')
  next
    case (Some child)
    then show ?thesis using IH n c(2) by (simp add: update_conv')
  qed
qed

lemma putAt_ancestor:
  "putAt p v n = Some n' \<Longrightarrow> prefix q p \<Longrightarrow> q \<noteq> p \<Longrightarrow> \<exists>r es. lookup n' q = Some (Dir r es)"
proof (induction p arbitrary: n n' q)
  case Nil
  then show ?case by simp
next
  case (Cons c cs)
  then obtain r es where n: "n = Dir r es" by (cases n) auto
  show ?case
  proof (cases q)
    case Nil
    then show ?thesis using Cons.prems(1) n by (auto split: if_splits option.splits)
  next
    case q: (Cons d ds)
    then have d: "d = c" "prefix ds cs" "ds \<noteq> cs" using Cons.prems(2,3) by auto
    then have "cs \<noteq> []" by auto
    then obtain child child' where c: "map_of es c = Some child" "putAt cs v child = Some child'"
        "n' = Dir r (AList.update c child' es)"
      using Cons.prems(1) n by (auto split: option.splits)
    then show ?thesis using Cons.IH[OF c(2) d(2,3)] q d(1) by (simp add: update_conv')
  qed
qed

text \<open>The tool's directories exist.\<close>

lemma directoryExists_iff:
  "directoryExists tree p \<longleftrightarrow> (\<exists>r es. lookup tree (components p) = Some (Dir r es))"
  by (auto simp: directoryExists_def nodeAt_def split: option.splits node.splits)

lemma mkdirW_existing: "directoryExists (fs w) p \<Longrightarrow> mkdirW p w = Ok () w"
  using mkdirp_existing[of "fs w" "components p"]
  by (auto simp: directoryExists_iff mkdirW_def mkdir_def)

lemma ensureDirectories_installed: "installed E w \<Longrightarrow> ensureDirectories E w = Ok () w"
  by (simp add: installed_def ensureDirectories_def andThen_def mkdirW_existing)

lemma mkdirW_Ok:
  assumes "mkdirW p w = Ok u w'"
  shows "directoryExists (fs w') p" "out w' = out w" "DEFAULT_CONFIG w' = DEFAULT_CONFIG w"
    "mkdirp (components p) (fs w) = Some (fs w')"
  using assms mkdirp_dir[of "components p" "fs w"]
  by (auto simp: mkdirW_def mkdir_def directoryExists_iff split: option.splits)

lemma ensureDirectories_Ok:
  assumes "ensureDirectories E w = Ok u w'"
  shows "installed E w'" "out w' = out w" "DEFAULT_CONFIG w' = DEFAULT_CONFIG w"
    "nodeAt (fs w') (CONFIG_PATH E) = nodeAt (fs w) (CONFIG_PATH E)"
proof -
  obtain u1 w1 where 1: "mkdirW (SKILLS_ROOT E) w = Ok u1 w1" and 2: "mkdirW (SKILLS_STORE E) w1 = Ok u w'"
    using assms unfolding ensureDirectories_def andThen_Ok by blast
  have m1: "mkdirp (components (SKILLS_ROOT E)) (fs w) = Some (fs w1)" using mkdirW_Ok(4)[OF 1] .
  have m2: "mkdirp (components (SKILLS_STORE E)) (fs w1) = Some (fs w')" using mkdirW_Ok(4)[OF 2] .
  have "\<exists>r es. lookup (fs w') (components (SKILLS_ROOT E)) = Some (Dir r es)"
    using mkdirp_ancestor[OF m2, of "components (SKILLS_ROOT E)"] by (simp add: components_STORE)
  then show "installed E w'" using mkdirW_Ok(1)[OF 2] by (simp add: installed_def directoryExists_iff)
  show "out w' = out w" using mkdirW_Ok(2)[OF 1] mkdirW_Ok(2)[OF 2] by simp
  show "DEFAULT_CONFIG w' = DEFAULT_CONFIG w" using mkdirW_Ok(3)[OF 1] mkdirW_Ok(3)[OF 2] by simp
  have "lookup (fs w1) (components (CONFIG_PATH E)) = lookup (fs w) (components (CONFIG_PATH E))"
    using mkdirp_below[OF m1, of "''config.json''" "[]"] by (simp add: components_CONFIG)
  moreover have "lookup (fs w') (components (CONFIG_PATH E)) = lookup (fs w1) (components (CONFIG_PATH E))"
    using mkdirp_frame[OF m2, of "components (CONFIG_PATH E)"]
    by (simp add: components_CONFIG components_STORE)
  ultimately show "nodeAt (fs w') (CONFIG_PATH E) = nodeAt (fs w) (CONFIG_PATH E)"
    by (simp add: nodeAt_def)
qed

lemma writeW_Ok:
  assumes "writeW p text w = Ok u w'"
  shows "\<exists>r. nodeAt (fs w') p = Some (File r text)" "out w' = out w"
    "DEFAULT_CONFIG w' = DEFAULT_CONFIG w"
    "\<exists>v. putAt (components p) (Some v) (fs w) = Some (fs w')"
proof -
  have "\<exists>r tree'. putAt (components p) (Some (File r text)) (fs w) = Some tree'
          \<and> w' = w\<lparr>fs := tree'\<rparr>"
    using assms by (auto simp: writeW_def writeFile_def split: option.splits node.splits)
  then obtain r tree' where rt: "putAt (components p) (Some (File r text)) (fs w) = Some tree'"
      "w' = w\<lparr>fs := tree'\<rparr>" by blast
  define v where "v = File r text"
  have v: "putAt (components p) (Some v) (fs w) = Some (fs w')" "\<exists>r. v = File r text"
    using rt by (simp_all add: v_def)
  have o: "out w' = out w" "DEFAULT_CONFIG w' = DEFAULT_CONFIG w" using rt(2) by simp_all
  show "\<exists>r. nodeAt (fs w') p = Some (File r text)" using putAt_at[OF v(1)] v(2) by (auto simp: nodeAt_def)
  show "out w' = out w" "DEFAULT_CONFIG w' = DEFAULT_CONFIG w" using o by simp_all
  show "\<exists>v. putAt (components p) (Some v) (fs w) = Some (fs w')" using v(1) by blast
qed

lemma writeConfig_Ok:
  assumes "writeConfig E c w = Ok u w'"
  shows "\<exists>r. nodeAt (fs w') (CONFIG_PATH E) = Some (File r (jsonStringify E c))"
    "installed E w'" "out w' = out w" "DEFAULT_CONFIG w' = DEFAULT_CONFIG w"
proof -
  obtain u1 w1 where 1: "ensureDirectories E w = Ok u1 w1"
    and 2: "writeW (CONFIG_PATH E) (jsonStringify E c) w1 = Ok u w'"
    using assms unfolding writeConfig_def andThen_Ok by blast
  show "\<exists>r. nodeAt (fs w') (CONFIG_PATH E) = Some (File r (jsonStringify E c))"
    using writeW_Ok(1)[OF 2] .
  show "out w' = out w" using ensureDirectories_Ok(2)[OF 1] writeW_Ok(2)[OF 2] by simp
  show "DEFAULT_CONFIG w' = DEFAULT_CONFIG w"
    using ensureDirectories_Ok(3)[OF 1] writeW_Ok(3)[OF 2] by simp
  obtain v where p: "putAt (components (CONFIG_PATH E)) (Some v) (fs w1) = Some (fs w')"
    using writeW_Ok(4)[OF 2] by blast
  have i1: "installed E w1" using ensureDirectories_Ok(1)[OF 1] .
  have "\<exists>r es. lookup (fs w') (components (SKILLS_ROOT E)) = Some (Dir r es)"
    using putAt_ancestor[OF p, of "components (SKILLS_ROOT E)"] by (simp add: components_CONFIG)
  moreover have "lookup (fs w') (components (SKILLS_STORE E)) = lookup (fs w1) (components (SKILLS_STORE E))"
    using putAt_frame[OF p, of "components (SKILLS_STORE E)"]
    by (simp add: components_CONFIG components_STORE)
  ultimately show "installed E w'" using i1 by (simp add: installed_def directoryExists_iff)
qed


section \<open>Reading a corrupt registry\<close>





section \<open>Registering a source twice\<close>

lemma migrateSources_no_legacy:
  "\<forall>x \<in> set xs. \<not> legacy x \<Longrightarrow> migrateSources E xs w = Ok (xs, False) w"
  by (induction xs) (simp_all add: ret_def andThen_def)

lemma migrateSources_output:
  "migrateSources E xs w = Ok (ys, b) w' \<Longrightarrow> \<forall>y \<in> set ys. \<not> legacy y"
proof (induction xs arbitrary: w ys b w')
  case Nil
  then show ?case by (simp add: ret_def)
next
  case (Cons x xs)
  show ?case
  proof (cases "legacy x")
    case True
    then obtain u w1 rest b1 w2 where
      2: "migrateSources E xs w1 = Ok (rest, b1) w2"
      and 3: "ys = x\<lparr>s_name := Some (last (splitOn CHR ''/'' (showOpt (s_namespace x)))),
                      s_namespace := None\<rparr> # rest"
      using Cons.prems by (auto simp: andThen_Ok ret_def Let_def split: prod.splits)
    then show ?thesis using Cons.IH[OF 2] by (simp add: legacy_def truthy_def)
  next
    case False
    then obtain rest b1 w2 where 2: "migrateSources E xs w = Ok (rest, b1) w2"
      and 3: "ys = x # rest"
      using Cons.prems by (auto simp: andThen_Ok ret_def split: prod.splits)
    then show ?thesis using Cons.IH[OF 2] False by simp
  qed
qed

lemma keepsDefault_migrateSkillFolder: "keepsDefault (migrateSkillFolder E old new)"
  unfolding migrateSkillFolder_def Let_def
  by (intro keepsDefault_tryCatch keepsDefault_if keepsDefault_andThen keepsDefault_renameW
      keepsDefault_log keepsDefault_rmFileW keepsDefault_ret)

lemma keepsDefault_migrateSources: "keepsDefault (migrateSources E xs)"
proof (induction xs)
  case Nil
  then show ?case by (simp add: keepsDefault_ret)
next
  case (Cons x xs)
  show ?case
  proof (cases "legacy x")
    case True
    then show ?thesis using Cons
      by (auto simp: Let_def intro!: keepsDefault_andThen keepsDefault_migrateSkillFolder
          keepsDefault_ret split: prod.splits)
  next
    case False
    then show ?thesis using Cons
      by (auto intro!: keepsDefault_andThen keepsDefault_ret split: prod.splits)
  qed
qed

lemma readJson_Ok: "readJson E p w = Ok c w' \<Longrightarrow> w' = w"
  by (auto simp: readJson_def split: option.splits node.splits bool.splits)

lemma keepsDefault_readJson: "keepsDefault (readJson E p)"
  by (auto simp: keepsDefault_def readJson_def split: option.splits node.splits bool.splits)

lemma keepsDefault_body:
  "keepsDefault (andThen (readJson E p) (\<lambda>content.
               andThen (migrateSources E (sources content)) (\<lambda>(migrated, needsMigration).
               andThen (if needsMigration
                        then writeConfig E (content\<lparr>sources := migrated\<rparr>)
                        else ret ()) (\<lambda>_.
               ret (Fresh (content\<lparr>sources := migrated\<rparr>))))))"
proof (intro keepsDefault_andThen keepsDefault_readJson keepsDefault_migrateSources)
  fix content :: config and x :: "source list \<times> bool"
  obtain migrated b where x: "x = (migrated, b)" by (cases x)
  show "keepsDefault (case x of (migrated, needsMigration) \<Rightarrow>
               andThen (if needsMigration
                        then writeConfig E (content\<lparr>sources := migrated\<rparr>)
                        else ret ()) (\<lambda>_.
               ret (Fresh (content\<lparr>sources := migrated\<rparr>))))"
    unfolding x prod.case
    by (cases b) (auto intro!: keepsDefault_andThen keepsDefault_writeConfig keepsDefault_ret)
qed

lemma readConfig_Ok:
  assumes "readConfig E w = Ok cr w0"
  shows "DEFAULT_CONFIG w0 = DEFAULT_CONFIG w"
    and "cr = Shared \<or> (\<exists>c. cr = Fresh c \<and> (\<forall>x \<in> set (sources c). \<not> legacy x))"
proof -
  obtain u w1 where e: "ensureDirectories E w = Ok u w1"
    and rest: "(if \<not> fileExists (fs w1) (CONFIG_PATH E)
        then andThen (writeConfig E (DEFAULT_CONFIG w1)) (\<lambda>_. ret Shared) w1
        else tryCatch
              (andThen (readJson E (CONFIG_PATH E)) (\<lambda>content.
               andThen (migrateSources E (sources content)) (\<lambda>(migrated, needsMigration).
               andThen (if needsMigration
                        then writeConfig E (content\<lparr>sources := migrated\<rparr>)
                        else ret ()) (\<lambda>_.
               ret (Fresh (content\<lparr>sources := migrated\<rparr>))))))
              (\<lambda>e w'. andThen (writeConfig E (DEFAULT_CONFIG w')) (\<lambda>_. ret Shared) w')
              w1) = Ok cr w0"
    using assms unfolding readConfig_def andThen_Ok by blast
  have d1: "DEFAULT_CONFIG w1 = DEFAULT_CONFIG w" using ensureDirectories_Ok(3)[OF e] .
  have shared: "DEFAULT_CONFIG v' = DEFAULT_CONFIG v \<and> cr = Shared"
    if "andThen (writeConfig E (DEFAULT_CONFIG v)) (\<lambda>_. ret Shared) v = Ok cr v'" for v v'
    using that writeConfig_Ok(4) by (auto simp: andThen_Ok ret_def)
  show "DEFAULT_CONFIG w0 = DEFAULT_CONFIG w"
    and "cr = Shared \<or> (\<exists>c. cr = Fresh c \<and> (\<forall>x \<in> set (sources c). \<not> legacy x))"
  proof -
    let ?body = "andThen (readJson E (CONFIG_PATH E)) (\<lambda>content.
               andThen (migrateSources E (sources content)) (\<lambda>(migrated, needsMigration).
               andThen (if needsMigration
                        then writeConfig E (content\<lparr>sources := migrated\<rparr>)
                        else ret ()) (\<lambda>_.
               ret (Fresh (content\<lparr>sources := migrated\<rparr>)))))"
    have kb: "keepsDefault ?body" by (rule keepsDefault_body)
    have "DEFAULT_CONFIG w0 = DEFAULT_CONFIG w1
        \<and> (cr = Shared \<or> (\<exists>c. cr = Fresh c \<and> (\<forall>x \<in> set (sources c). \<not> legacy x)))"
    proof (cases "fileExists (fs w1) (CONFIG_PATH E)")
      case False
      then show ?thesis using rest shared[of w1 w0] by simp
    next
      case True
      then have t: "tryCatch ?body
              (\<lambda>e w'. andThen (writeConfig E (DEFAULT_CONFIG w')) (\<lambda>_. ret Shared) w') w1 = Ok cr w0"
        using rest by simp
      show ?thesis
      proof (cases "?body w1")
        case (Ok x v)
        then have x: "x = cr" "v = w0" using t by (simp_all add: tryCatch_def)
        obtain content w2 migrated b w3 where
          m: "migrateSources E (sources content) w2 = Ok (migrated, b) w3"
          and c: "cr = Fresh (content\<lparr>sources := migrated\<rparr>)"
          using Ok x by (auto simp: andThen_Ok ret_def split: prod.splits)
        have "\<forall>x \<in> set migrated. \<not> legacy x" using migrateSources_output[OF m] .
        then show ?thesis using keepsDefault_Ok[OF kb Ok] x c by simp
      next
        case (Throw e v)
        then have "andThen (writeConfig E (DEFAULT_CONFIG v)) (\<lambda>_. ret Shared) v = Ok cr w0"
          using t by (simp add: tryCatch_def)
        then show ?thesis using shared[of v w0] keepsDefault_Throw[OF kb Throw] by simp
      qed
    qed
    then show "DEFAULT_CONFIG w0 = DEFAULT_CONFIG w"
      and "cr = Shared \<or> (\<exists>c. cr = Fresh c \<and> (\<forall>x \<in> set (sources c). \<not> legacy x))"
      using d1 by simp_all
  qed
qed

lemma readConfig_clean:
  assumes "installed E w" "nodeAt (fs w) (CONFIG_PATH E) = Some (File True text)"
    and "jsonParse E text = Some c" "\<forall>x \<in> set (sources c). \<not> legacy x"
  shows "readConfig E w = Ok (Fresh c) w"
proof -
  have "fileExists (fs w) (CONFIG_PATH E)" using assms(2) by (simp add: fileExists_def)
  moreover have "readJson E (CONFIG_PATH E) w = Ok c w" using assms(2,3) by (simp add: readJson_def)
  moreover have "c\<lparr>sources := sources c\<rparr> = c" by simp
  ultimately show ?thesis
    using ensureDirectories_installed[OF assms(1)] migrateSources_no_legacy[OF assms(4)]
    by (simp add: readConfig_def andThen_def tryCatch_def ret_def)
qed

text \<open>
  C6. After \<^verbatim>\<open>addSource\<close> has registered a source, a second call with a source of the same name,
  in the same process or a later one, raises the name collision and leaves the world as it was;
  the registry file then holds exactly one source of that name. The registry file
  is readable and its text parses back to the registry it was written from; the source is of the
  current format (it has a name, or no namespace).
\<close>

theorem addSource_twice:
  assumes first: "addSource E s w = Ok u w1"
    and readable: "nodeAt (fs w1) (CONFIG_PATH E) = Some (File True text)"
    and codec: "\<forall>c. jsonStringify E c = text \<longrightarrow> jsonParse E text = Some c"
    and same: "s_name s' = s_name s"
    and cur: "\<not> legacy s" "DEFAULT_CONFIG w = emptyConfig"
    and later: "fs w2 = fs w1"
  shows "addSource E s' w2
           = Throw (Exn ''Error'' (''Skill with name '' @ quoted (showOpt (s_name s)) @ '' already exists'')) w2
       \<and> (\<exists>c. jsonParse E text = Some c
              \<and> length (filter (\<lambda>x. s_name x = s_name s) (sources c)) = 1)"
proof -
  obtain cr w0 where rc: "readConfig E w = Ok cr w0"
    and nf: "find (\<lambda>x. s_name x = s_name s) (sources (deref w0 cr)) = None"
    and wr: "writeConfig E ((deref w0 cr)\<lparr>sources := sources (deref w0 cr) @ [s]\<rparr>)
               (snd (assign cr ((deref w0 cr)\<lparr>sources := sources (deref w0 cr) @ [s]\<rparr>) w0)) = Ok u w1"
    using first unfolding addSource_def andThen_Ok
    by (auto simp: throw_def Let_def split: if_splits)
  define c0 where "c0 = deref w0 cr"
  define c' where "c' = c0\<lparr>sources := sources c0 @ [s]\<rparr>"
  have "\<exists>r. nodeAt (fs w1) (CONFIG_PATH E) = Some (File r (jsonStringify E c'))"
    using writeConfig_Ok(1)[OF wr] by (simp add: c'_def c0_def)
  then have "jsonStringify E c' = text" using readable by auto
  then have parse: "jsonParse E text = Some c'" using codec by blast
  have none: "filter (\<lambda>x. s_name x = s_name s) (sources c0) = []"
    using nf by (simp add: c0_def find_None_iff filter_empty_conv)
  then have one: "length (filter (\<lambda>x. s_name x = s_name s) (sources c')) = 1"
    by (simp add: c'_def)
  have "\<forall>x \<in> set (sources c0). \<not> legacy x"
  proof (cases cr)
    case Shared
    then have "c0 = emptyConfig" using readConfig_Ok(1)[OF rc] cur(2) by (simp add: c0_def deref_def)
    then show ?thesis by (simp add: emptyConfig_def)
  next
    case (Fresh c)
    then show ?thesis using readConfig_Ok(2)[OF rc] by (simp add: c0_def deref_def)
  qed
  then have clean: "\<forall>x \<in> set (sources c'). \<not> legacy x" using cur(1) by (simp add: c'_def)
  have "installed E w1" using writeConfig_Ok(2)[OF wr] .
  then have i2: "installed E w2" using later by (simp add: installed_def)
  have n2: "nodeAt (fs w2) (CONFIG_PATH E) = Some (File True text)" using readable later by simp
  have r2: "readConfig E w2 = Ok (Fresh c') w2" using readConfig_clean[OF i2 n2 parse clean] .
  have "s \<in> set (sources c')" by (simp add: c'_def)
  then have "find (\<lambda>x. s_name x = s_name s') (sources c') \<noteq> None"
    using same by (auto simp: find_None_iff)
  then have "addSource E s' w2
      = Throw (Exn ''Error'' (''Skill with name '' @ quoted (showOpt (s_name s)) @ '' already exists'')) w2"
    using r2 same by (simp add: addSource_def andThen_def deref_def throw_def)
  then show ?thesis using parse one by blast
qed

theorem addSource_twice_witness:
  "addSource codecEnv localSource emptyStoreWorld = Ok () registeredWorld
   \<and> nodeAt (fs registeredWorld) (CONFIG_PATH codecEnv) = Some (File True ''{mine}'')
   \<and> addSource codecEnv (badSource\<lparr>s_name := Some ''mine''\<rparr>) registeredWorld
       = Throw (Exn ''Error'' (''Skill with name '' @ quoted ''mine'' @ '' already exists'')) registeredWorld
   \<and> (\<exists>c. jsonParse codecEnv ''{mine}'' = Some c
          \<and> length (filter (\<lambda>x. s_name x = Some ''mine'') (sources c)) = 1)"
proof -
  have a: "addSource codecEnv localSource emptyStoreWorld = Ok () registeredWorld" by code_simp
  have b: "nodeAt (fs registeredWorld) (CONFIG_PATH codecEnv) = Some (File True ''{mine}'')"
    by code_simp
  have c: "\<forall>c. jsonStringify codecEnv c = ''{mine}'' \<longrightarrow> jsonParse codecEnv ''{mine}'' = Some c"
    by (simp add: codecEnv_def)
  have d: "s_name (badSource\<lparr>s_name := Some ''mine''\<rparr>) = s_name localSource"
    by (simp add: localSource_def)
  have e: "\<not> legacy localSource" by (simp add: legacy_def localSource_def truthy_def)
  have f: "DEFAULT_CONFIG emptyStoreWorld = emptyConfig" by (simp add: emptyStoreWorld_def)
  have n: "s_name localSource = Some ''mine''" "showOpt (Some ''mine'') = ''mine''"
    by (simp_all add: localSource_def showOpt_def)
  show ?thesis
    using addSource_twice[OF a b c d e f refl] a b n by simp
qed

section \<open>Removing a target\<close>


lemma apart_inside: "apart r p \<Longrightarrow> prefix p q \<Longrightarrow> apart r q"
  unfolding apart_def using prefix_order.trans prefix_same_cases by blast





























end
